theory Spec2Isabelle
  imports Complex_Main
begin

section \<open>Path-integral quantum annealing: the sweep engines of \<^verbatim>\<open>src/piqmc/qmc.pyx\<close>\<close>

text \<open>
  The embedding follows \<^verbatim>\<open>QuantumAnneal\<close> and \<^verbatim>\<open>QuantumAnneal_parallel\<close> loop by loop.

  \<^item> Numbers. The source computes in C \<^verbatim>\<open>float\<close> and \<^verbatim>\<open>double\<close>; the model
    computes in \<open>real\<close>, so rounding, infinities and NaN are outside it. Where the
    source takes a logarithm, the real-valued expression stands for the floating-point
    one only where that one is finite. The two functions are compiled with checked
    division: a division by zero (by \<^verbatim>\<open>slices*temp\<close> in lines 76 and 171, by
    \<^verbatim>\<open>temp\<close> in lines 113 and 210) raises, and the model returns the error
    \<open>ZeroDivisionError\<close> there. Loop counters and indices are C \<^verbatim>\<open>int\<close>s that stay
    within the loop bounds; they are \<open>int\<close>.
  \<^item> Arrays. \<^verbatim>\<open>confs\<close> (spins by slices) is a list of rows; \<^verbatim>\<open>nbs\<close>
    (spins by neighbours by 2) is a list of rows of pairs (index, coupling). Both
    functions are compiled with \<^verbatim>\<open>boundscheck(False)\<close> and
    \<^verbatim>\<open>wraparound(False)\<close>: an index outside the array is an unchecked memory
    access. The model makes that outcome explicit as the error \<open>OutOfBounds\<close>.
  \<^item> Effects. The configuration is mutated in place; the injected generator
    \<^verbatim>\<open>rng\<close> and the C library's \<^verbatim>\<open>rand()\<close> carry hidden state. All three are
    threaded through explicitly. \<^verbatim>\<open>rng.permutation\<close>, \<^verbatim>\<open>rand\<close> and
    \<^verbatim>\<open>RAND_MAX\<close> are not code of this repository: they are parameters
    \<open>perm\<close>, \<open>crand\<close> and \<open>RAND_MAX\<close> of the model. \<open>perm\<close> takes the state of
    the generator and a list of indices and returns a list of indices and the next
    state; the source declares the result as an array of integers, and a generator
    that returns anything else is outside the model.
\<close>

subsection \<open>Errors and the for-loop\<close>

datatype error = OutOfBounds | NegativeDimension | ZeroDivisionError

definition ebind :: "error + 'a \<Rightarrow> ('a \<Rightarrow> error + 'b) \<Rightarrow> error + 'b" where
  "ebind m f = (case m of Inl e \<Rightarrow> Inl e | Inr x \<Rightarrow> f x)"

text \<open>\<^verbatim>\<open>for x in xs: body\<close> over a state; an error in the body ends the loop.\<close>

fun for_each :: "('x \<Rightarrow> 's \<Rightarrow> error + 's) \<Rightarrow> 'x list \<Rightarrow> 's \<Rightarrow> error + 's" where
  "for_each body [] s = Inr s"
| "for_each body (x # xs) s =
     (case body x s of Inl e \<Rightarrow> Inl e | Inr s' \<Rightarrow> for_each body xs s')"

text \<open>\<^verbatim>\<open>xrange(n)\<close> and \<^verbatim>\<open>range(n)\<close>: the integers \<open>0, \<dots>, n - 1\<close>, none when \<open>n \<le> 0\<close>.\<close>

definition xrange :: "int \<Rightarrow> int list" where
  "xrange n = [0..n - 1]"

subsection \<open>Array accesses\<close>

definition in_bounds :: "'a list list \<Rightarrow> int \<Rightarrow> int \<Rightarrow> bool" where
  "in_bounds a i j =
     (0 \<le> i \<and> i < int (length a) \<and> 0 \<le> j \<and> j < int (length (a ! nat i)))"

text \<open>\<^verbatim>\<open>confs[i, j]\<close> and \<^verbatim>\<open>nbs[i, j, 0], nbs[i, j, 1]\<close>.\<close>

definition arr_get :: "'a list list \<Rightarrow> int \<Rightarrow> int \<Rightarrow> error + 'a" where
  "arr_get a i j = (if in_bounds a i j then Inr (a ! nat i ! nat j) else Inl OutOfBounds)"

text \<open>\<^verbatim>\<open>confs[i, j] *= -1\<close>.\<close>

definition conf_flip :: "real list list \<Rightarrow> int \<Rightarrow> int \<Rightarrow> error + real list list" where
  "conf_flip confs i j =
     (if in_bounds confs i j
      then Inr (confs[nat i := (confs ! nat i)[nat j := confs ! nat i ! nat j * (- 1)]])
      else Inl OutOfBounds)"

text \<open>\<^verbatim>\<open>ediffs[i]\<close> and \<^verbatim>\<open>ediffs[i] += t\<close> on the scratch buffer of the parallel engine.\<close>

definition vec_get :: "real list \<Rightarrow> int \<Rightarrow> error + real" where
  "vec_get v i = (if 0 \<le> i \<and> i < int (length v) then Inr (v ! nat i) else Inl OutOfBounds)"

definition vec_add :: "real list \<Rightarrow> int \<Rightarrow> real \<Rightarrow> error + real list" where
  "vec_add v i t =
     (if 0 \<le> i \<and> i < int (length v) then Inr (v[nat i := v ! nat i + t]) else Inl OutOfBounds)"

text \<open>\<^verbatim>\<open>int(x)\<close> of a float: truncation towards zero.\<close>

definition c_int :: "real \<Rightarrow> int" where
  "c_int x = (if 0 \<le> x then \<lfloor>x\<rfloor> else \<lceil>x\<rceil>)"

text \<open>
  \<^verbatim>\<open>maxnb = nbs[0].shape[0]\<close>: the second dimension of \<^verbatim>\<open>nbs\<close>. A list of rows
  with no row carries no width; it is given width 0.
\<close>

definition maxnb_of :: "(real \<times> real) list list \<Rightarrow> int" where
  "maxnb_of nbs = (case nbs of [] \<Rightarrow> 0 | row # _ \<Rightarrow> int (length row))"

subsection \<open>The energy difference of one spin\<close>

text \<open>
  Lines 85--94 (and 182--191): the value added to the accumulator for entry \<open>si\<close> of the
  neighbour list of spin \<open>sidx\<close>.
\<close>

definition nb_term ::
  "real list list \<Rightarrow> (real \<times> real) list list \<Rightarrow> int \<Rightarrow> int \<Rightarrow> int \<Rightarrow> error + real" where
  "nb_term confs nbs sidx islice si =
     ebind (arr_get nbs sidx si) (\<lambda>(nbidx, jval).
       let spinidx = c_int nbidx in
       if spinidx = sidx
       then ebind (arr_get confs sidx islice) (\<lambda>s. Inr (- 2 * s * jval))
       else ebind (arr_get confs sidx islice) (\<lambda>s.
            ebind (arr_get confs spinidx islice) (\<lambda>sn. Inr (- 2 * s * (jval * sn)))))"

text \<open>Lines 83--94: \<^verbatim>\<open>for si in xrange(maxnb): ediff += ...\<close>.\<close>

definition nb_loop ::
  "real list list \<Rightarrow> (real \<times> real) list list \<Rightarrow> int \<Rightarrow> int \<Rightarrow> int \<Rightarrow> real \<Rightarrow> error + real" where
  "nb_loop confs nbs maxnb sidx islice ediff =
     for_each (\<lambda>si ediff. ebind (nb_term confs nbs sidx islice si) (\<lambda>t. Inr (ediff + t)))
       (xrange maxnb) ediff"

text \<open>
  Lines 96--104 (and 193--201): the choice of the two neighbouring slices, as a function
  of the three variables the source tests.
\<close>

definition trotter_nbrs :: "int \<Rightarrow> int \<Rightarrow> int \<Rightarrow> int \<times> int" where
  "trotter_nbrs tidx slices islice =
     (if tidx = 0 then (slices - 1, 1)
      else if tidx = slices - 1 then (slices - 2, 0)
      else (islice - 1, islice + 1))"

text \<open>
  Lines 106--109 (and 203--206): the two inter-slice terms. Both functions declare
  \<^verbatim>\<open>cdef int tidx = 0\<close> and never assign \<^verbatim>\<open>tidx\<close> again, so the test of lines
  96--104 is made on the value 0 at every spin update.
\<close>

definition trotter_terms ::
  "real \<Rightarrow> int \<Rightarrow> real list list \<Rightarrow> int \<Rightarrow> int \<Rightarrow> error + real" where
  "trotter_terms jperp slices confs sidx islice =
     (let tidx = 0;
          (tleft, tright) = trotter_nbrs tidx slices islice
      in ebind (arr_get confs sidx islice) (\<lambda>s.
         ebind (arr_get confs sidx tleft) (\<lambda>sl.
         ebind (arr_get confs sidx tright) (\<lambda>sr.
           Inr (- 2 * s * (jperp * sl) + - 2 * s * (jperp * sr))))))"

text \<open>Lines 83--109: everything one spin adds to the accumulator \<^verbatim>\<open>ediff\<close>.\<close>

definition ediff_accum ::
  "real \<Rightarrow> int \<Rightarrow> (real \<times> real) list list \<Rightarrow> int \<Rightarrow> real list list \<Rightarrow> int \<Rightarrow> int \<Rightarrow> real
     \<Rightarrow> error + real" where
  "ediff_accum jperp slices nbs maxnb confs islice sidx ediff =
     ebind (nb_loop confs nbs maxnb sidx islice ediff) (\<lambda>e1.
     ebind (trotter_terms jperp slices confs sidx islice) (\<lambda>t. Inr (e1 + t)))"

subsection \<open>Accept or reject\<close>

text \<open>\<^verbatim>\<open>crand()/float(RAND_MAX)\<close>.\<close>

definition uniform_draw :: "int \<Rightarrow> int \<Rightarrow> real" where
  "uniform_draw RAND_MAX k = real_of_int k / real_of_int RAND_MAX"

text \<open>
  Lines 111--114 (and 208--211). \<^verbatim>\<open>rand()\<close> is called only when the first test
  fails, and after the division \<^verbatim>\<open>ediff/temp\<close>, which raises for \<^verbatim>\<open>temp\<close> equal to 0.
\<close>

definition accept_reject ::
  "('c \<Rightarrow> int \<times> 'c) \<Rightarrow> int \<Rightarrow> real \<Rightarrow> real \<Rightarrow> real list list \<Rightarrow> int \<Rightarrow> int \<Rightarrow> 'c
     \<Rightarrow> error + (real list list \<times> 'c)" where
  "accept_reject crand RAND_MAX temp ediff confs sidx islice c =
     (if ediff > 0
      then ebind (conf_flip confs sidx islice) (\<lambda>confs'. Inr (confs', c))
      else if temp = 0 then Inl ZeroDivisionError
      else (let (k, c') = crand c in
            if exp (ediff / temp) > uniform_draw RAND_MAX k
            then ebind (conf_flip confs sidx islice) (\<lambda>confs'. Inr (confs', c'))
            else Inr (confs, c')))"

subsection \<open>The serial engine\<close>

text \<open>
  The state of the sweep: the configuration, the accumulator \<^verbatim>\<open>ediff\<close> and the state of
  \<^verbatim>\<open>rand()\<close>. Lines 82--114, the body of \<^verbatim>\<open>for sidx in sidx_shuff\<close>.
\<close>

definition spin_update ::
  "('c \<Rightarrow> int \<times> 'c) \<Rightarrow> int \<Rightarrow> real \<Rightarrow> int \<Rightarrow> real \<Rightarrow> (real \<times> real) list list \<Rightarrow> int \<Rightarrow> int
     \<Rightarrow> int \<Rightarrow> real list list \<times> real \<times> 'c \<Rightarrow> error + (real list list \<times> real \<times> 'c)" where
  "spin_update crand RAND_MAX jperp slices temp nbs maxnb islice sidx st =
     (case st of (confs, ediff, c) \<Rightarrow>
        ebind (ediff_accum jperp slices nbs maxnb confs islice sidx ediff) (\<lambda>ediff'.
        ebind (accept_reject crand RAND_MAX temp ediff' confs sidx islice c) (\<lambda>(confs', c').
          Inr (confs', ediff', c'))))"

text \<open>
  Lines 80--116, the body of \<^verbatim>\<open>for islice in xrange(slices)\<close>: the loop over the spins,
  then \<^verbatim>\<open>ediff = 0.0\<close>. The assignment of line 116 is indented as a statement of the
  slice loop, after the spin loop.
\<close>

definition slice_sweep ::
  "('c \<Rightarrow> int \<times> 'c) \<Rightarrow> int \<Rightarrow> real \<Rightarrow> int \<Rightarrow> real \<Rightarrow> (real \<times> real) list list \<Rightarrow> int \<Rightarrow> int list
     \<Rightarrow> int \<Rightarrow> real list list \<times> real \<times> 'c \<Rightarrow> error + (real list list \<times> real \<times> 'c)" where
  "slice_sweep crand RAND_MAX jperp slices temp nbs maxnb sidx_shuff islice st =
     ebind (for_each (spin_update crand RAND_MAX jperp slices temp nbs maxnb islice) sidx_shuff st)
       (\<lambda>(confs', ediff', c'). Inr (confs', 0, c'))"

text \<open>
  Lines 78--117, the body of \<^verbatim>\<open>for step in xrange(mcsteps)\<close>: the loop over the slices,
  then a new permutation. The state grows by the current order and the generator.
\<close>

definition mc_step ::
  "('g \<Rightarrow> int list \<Rightarrow> int list \<times> 'g) \<Rightarrow> ('c \<Rightarrow> int \<times> 'c) \<Rightarrow> int \<Rightarrow> real \<Rightarrow> int \<Rightarrow> real
     \<Rightarrow> (real \<times> real) list list \<Rightarrow> int \<Rightarrow> int
     \<Rightarrow> (real list list \<times> real \<times> 'c) \<times> int list \<times> 'g
     \<Rightarrow> error + ((real list list \<times> real \<times> 'c) \<times> int list \<times> 'g)" where
  "mc_step perm crand RAND_MAX jperp slices temp nbs maxnb step st =
     (case st of (sw, sidx_shuff, g) \<Rightarrow>
        ebind (for_each (slice_sweep crand RAND_MAX jperp slices temp nbs maxnb sidx_shuff)
                 (xrange slices) sw)
          (\<lambda>sw'. let (sidx_shuff', g') = perm g sidx_shuff in Inr (sw', sidx_shuff', g')))"

text \<open>
  Line 76 (and 171): the value of the expression, and the assignment with its checked
  division, which raises when \<^verbatim>\<open>slices*temp\<close> is 0.
\<close>

definition jperp_value :: "int \<Rightarrow> real \<Rightarrow> real \<Rightarrow> real" where
  "jperp_value slices temp field =
     - 0.5 * real_of_int slices * temp * ln (tanh (field / (real_of_int slices * temp)))"

definition jperp_coeff :: "int \<Rightarrow> real \<Rightarrow> real \<Rightarrow> error + real" where
  "jperp_coeff slices temp field =
     (if real_of_int slices * temp = 0 then Inl ZeroDivisionError
      else Inr (jperp_value slices temp field))"

text \<open>Lines 75--117, the body of \<^verbatim>\<open>for ifield in xrange(sched.size)\<close>.\<close>

definition sched_point ::
  "('g \<Rightarrow> int list \<Rightarrow> int list \<times> 'g) \<Rightarrow> ('c \<Rightarrow> int \<times> 'c) \<Rightarrow> int \<Rightarrow> int \<Rightarrow> int \<Rightarrow> real
     \<Rightarrow> (real \<times> real) list list \<Rightarrow> int \<Rightarrow> real
     \<Rightarrow> (real list list \<times> real \<times> 'c) \<times> int list \<times> 'g
     \<Rightarrow> error + ((real list list \<times> real \<times> 'c) \<times> int list \<times> 'g)" where
  "sched_point perm crand RAND_MAX mcsteps slices temp nbs maxnb field st =
     ebind (jperp_coeff slices temp field) (\<lambda>jperp.
       for_each (mc_step perm crand RAND_MAX jperp slices temp nbs maxnb) (xrange mcsteps) st)"

text \<open>
  \<^verbatim>\<open>QuantumAnneal(sched, mcsteps, slices, temp, nspins, confs, nbs, rng)\<close>. The source
  returns nothing; the model returns what the call leaves behind: the configuration, the
  state of the generator and the state of \<^verbatim>\<open>rand()\<close>.
\<close>

definition QuantumAnneal ::
  "('g \<Rightarrow> int list \<Rightarrow> int list \<times> 'g) \<Rightarrow> ('c \<Rightarrow> int \<times> 'c) \<Rightarrow> int
     \<Rightarrow> real list \<Rightarrow> int \<Rightarrow> int \<Rightarrow> real \<Rightarrow> int \<Rightarrow> real list list \<Rightarrow> (real \<times> real) list list
     \<Rightarrow> 'g \<Rightarrow> 'c \<Rightarrow> error + (real list list \<times> 'g \<times> 'c)" where
  "QuantumAnneal perm crand RAND_MAX sched mcsteps slices temp nspins confs nbs g c =
     (let maxnb = maxnb_of nbs;
          ediff = 0;
          (sidx_shuff, g1) = perm g (xrange nspins)
      in ebind (for_each (sched_point perm crand RAND_MAX mcsteps slices temp nbs maxnb) sched
                  ((confs, ediff, c), sidx_shuff, g1))
           (\<lambda>((confs', ediff', c'), sidx_shuff', g'). Inr (confs', g', c')))"

subsection \<open>The parallel engine\<close>

text \<open>
  The state of the sweep: the configuration, the scratch buffer \<^verbatim>\<open>ediffs\<close> and the state
  of \<^verbatim>\<open>rand()\<close>. The body of the \<^verbatim>\<open>prange\<close> loop (lines 179--211) is modelled as one
  step per spin, and the loop as the run that takes the spins in index order, which is
  the run of one worker. Runs that interleave several workers are not modelled; what
  is proved of the body holds for each worker.
\<close>

definition par_nb_loop ::
  "real list list \<Rightarrow> (real \<times> real) list list \<Rightarrow> int \<Rightarrow> int \<Rightarrow> int \<Rightarrow> real list
     \<Rightarrow> error + real list" where
  "par_nb_loop confs nbs maxnb sidx islice ediffs =
     for_each (\<lambda>si ediffs. ebind (nb_term confs nbs sidx islice si) (vec_add ediffs sidx))
       (xrange maxnb) ediffs"

definition par_spin_update ::
  "('c \<Rightarrow> int \<times> 'c) \<Rightarrow> int \<Rightarrow> real \<Rightarrow> int \<Rightarrow> real \<Rightarrow> (real \<times> real) list list \<Rightarrow> int \<Rightarrow> int
     \<Rightarrow> int \<Rightarrow> real list list \<times> real list \<times> 'c
     \<Rightarrow> error + (real list list \<times> real list \<times> 'c)" where
  "par_spin_update crand RAND_MAX jperp slices temp nbs maxnb islice sidx st =
     (case st of (confs, ediffs, c) \<Rightarrow>
        ebind (par_nb_loop confs nbs maxnb sidx islice ediffs) (\<lambda>ediffs1.
        ebind (trotter_terms jperp slices confs sidx islice) (\<lambda>t.
        ebind (vec_add ediffs1 sidx t) (\<lambda>ediffs2.
        ebind (vec_get ediffs2 sidx) (\<lambda>ediff.
        ebind (accept_reject crand RAND_MAX temp ediff confs sidx islice c) (\<lambda>(confs', c').
          Inr (confs', ediffs2, c')))))))"

text \<open>Lines 175--213: the loop over the spins, then \<^verbatim>\<open>ediffs.fill(0.0)\<close>.\<close>

definition par_slice_sweep ::
  "('c \<Rightarrow> int \<times> 'c) \<Rightarrow> int \<Rightarrow> real \<Rightarrow> int \<Rightarrow> real \<Rightarrow> (real \<times> real) list list \<Rightarrow> int \<Rightarrow> int
     \<Rightarrow> int \<Rightarrow> real list list \<times> real list \<times> 'c
     \<Rightarrow> error + (real list list \<times> real list \<times> 'c)" where
  "par_slice_sweep crand RAND_MAX jperp slices temp nbs maxnb nspins islice st =
     ebind (for_each (par_spin_update crand RAND_MAX jperp slices temp nbs maxnb islice)
              (xrange nspins) st)
       (\<lambda>(confs', ediffs', c'). Inr (confs', map (\<lambda>_. 0) ediffs', c'))"

definition par_mc_step ::
  "('c \<Rightarrow> int \<times> 'c) \<Rightarrow> int \<Rightarrow> real \<Rightarrow> int \<Rightarrow> real \<Rightarrow> (real \<times> real) list list \<Rightarrow> int \<Rightarrow> int
     \<Rightarrow> int \<Rightarrow> real list list \<times> real list \<times> 'c
     \<Rightarrow> error + (real list list \<times> real list \<times> 'c)" where
  "par_mc_step crand RAND_MAX jperp slices temp nbs maxnb nspins step st =
     for_each (par_slice_sweep crand RAND_MAX jperp slices temp nbs maxnb nspins)
       (xrange slices) st"

definition par_sched_point ::
  "('c \<Rightarrow> int \<times> 'c) \<Rightarrow> int \<Rightarrow> int \<Rightarrow> int \<Rightarrow> real \<Rightarrow> (real \<times> real) list list \<Rightarrow> int \<Rightarrow> int
     \<Rightarrow> real \<Rightarrow> real list list \<times> real list \<times> 'c
     \<Rightarrow> error + (real list list \<times> real list \<times> 'c)" where
  "par_sched_point crand RAND_MAX mcsteps slices temp nbs maxnb nspins field st =
     ebind (jperp_coeff slices temp field) (\<lambda>jperp.
       for_each (par_mc_step crand RAND_MAX jperp slices temp nbs maxnb nspins)
         (xrange mcsteps) st)"

text \<open>
  \<^verbatim>\<open>QuantumAnneal_parallel(sched, mcsteps, slices, temp, nspins, confs, nbs, nthreads)\<close>.
  \<^verbatim>\<open>np.zeros(nspins)\<close> raises for a negative \<^verbatim>\<open>nspins\<close>. The number of workers does
  not enter the run of one worker and is not a parameter of the model.
\<close>

definition QuantumAnneal_parallel ::
  "('c \<Rightarrow> int \<times> 'c) \<Rightarrow> int
     \<Rightarrow> real list \<Rightarrow> int \<Rightarrow> int \<Rightarrow> real \<Rightarrow> int \<Rightarrow> real list list \<Rightarrow> (real \<times> real) list list
     \<Rightarrow> 'c \<Rightarrow> error + (real list list \<times> 'c)" where
  "QuantumAnneal_parallel crand RAND_MAX sched mcsteps slices temp nspins confs nbs c =
     (let maxnb = maxnb_of nbs
      in if nspins < 0 then Inl NegativeDimension
         else (let ediffs = replicate (nat nspins) 0
               in ebind (for_each
                           (par_sched_point crand RAND_MAX mcsteps slices temp nbs maxnb nspins)
                           sched (confs, ediffs, c))
                    (\<lambda>(confs', ediffs', c'). Inr (confs', c'))))"

subsection \<open>Predicates and reference functions of the properties\<close>

text \<open>
  The neighbouring slices as the specification words them: slice 0 has \<open>P - 1\<close> on
  its left and 1 on its right, slice \<open>P - 1\<close> has \<open>P - 2\<close> and 0, a slice \<open>k\<close> in
  between has \<open>k - 1\<close> and \<open>k + 1\<close>.
\<close>

definition spec_trotter_nbrs :: "int \<Rightarrow> int \<Rightarrow> int \<times> int" where
  "spec_trotter_nbrs slices islice =
     (if islice = 0 then (slices - 1, 1)
      else if islice = slices - 1 then (slices - 2, 0)
      else (islice - 1, islice + 1))"

text \<open>
  The intra-slice term of one neighbour entry as the specification words it: with the
  neighbour's spin for a genuine neighbour, without a second spin for a self entry.
\<close>

definition spec_nb_term ::
  "real list list \<Rightarrow> (real \<times> real) list list \<Rightarrow> int \<Rightarrow> int \<Rightarrow> int \<Rightarrow> real" where
  "spec_nb_term confs nbs sidx islice si =
     (let (nbidx, jval) = nbs ! nat sidx ! nat si;
          s = confs ! nat sidx ! nat islice
      in if c_int nbidx = sidx then - 2 * s * jval
         else - 2 * s * jval * (confs ! nat (c_int nbidx) ! nat islice))"

text \<open>The three array reads made for entry \<open>si\<close> lie inside the arrays.\<close>

definition nb_reads_in_bounds ::
  "real list list \<Rightarrow> (real \<times> real) list list \<Rightarrow> int \<Rightarrow> int \<Rightarrow> int \<Rightarrow> bool" where
  "nb_reads_in_bounds confs nbs sidx islice si =
     (in_bounds nbs sidx si \<and> in_bounds confs sidx islice
      \<and> in_bounds confs (c_int (fst (nbs ! nat sidx ! nat si))) islice)"

text \<open>The configuration with the sign of entry \<open>(i, j)\<close> changed.\<close>

definition flip_spin :: "real list list \<Rightarrow> int \<Rightarrow> int \<Rightarrow> real list list" where
  "flip_spin confs i j = confs[nat i := (confs ! nat i)[nat j := - (confs ! nat i ! nat j)]]"

text \<open>Every entry of the configuration is \<open>+1\<close> or \<open>-1\<close>.\<close>

definition spins_ok :: "real list list \<Rightarrow> bool" where
  "spins_ok confs = list_all (list_all (\<lambda>s. s = 1 \<or> s = - 1)) confs"

text \<open>
  The configurations that the engines' one write to the configuration,
  \<^verbatim>\<open>confs[sidx, islice] *= -1\<close> (lines 112, 114, 209 and 211), can produce from a given
  one, in any number of writes at any entries, in any order.
\<close>

inductive reachable_by_flips :: "real list list \<Rightarrow> real list list \<Rightarrow> bool"
  for confs :: "real list list" where
  start: "reachable_by_flips confs confs"
| flip: "reachable_by_flips confs confs1 \<Longrightarrow> conf_flip confs1 i j = Inr confs2
         \<Longrightarrow> reachable_by_flips confs confs2"

text \<open>
  Two sources of \<^verbatim>\<open>rand()\<close> values, each with its own kind of state, deliver the same
  values at their next \<open>k\<close> calls.
\<close>

fun rand_agree :: "nat \<Rightarrow> ('c \<Rightarrow> int \<times> 'c) \<Rightarrow> 'c \<Rightarrow> ('d \<Rightarrow> int \<times> 'd) \<Rightarrow> 'd \<Rightarrow> bool" where
  "rand_agree 0 crand1 c crand2 d = True"
| "rand_agree (Suc k) crand1 c crand2 d =
     (fst (crand1 c) = fst (crand2 d)
      \<and> rand_agree k crand1 (snd (crand1 c)) crand2 (snd (crand2 d)))"

text \<open>
  Two states of the sweep, and two states of the loop over the steps, that differ at most
  in the state of \<^verbatim>\<open>rand()\<close>, the two sources delivering the same values at their next
  \<open>k\<close> calls; the order of the spins has \<open>n\<close> entries.
\<close>

definition sweep_agree ::
  "('c \<Rightarrow> int \<times> 'c) \<Rightarrow> ('d \<Rightarrow> int \<times> 'd) \<Rightarrow> nat
     \<Rightarrow> real list list \<times> real \<times> 'c \<Rightarrow> real list list \<times> real \<times> 'd \<Rightarrow> bool" where
  "sweep_agree crand1 crand2 k s t =
     (fst s = fst t \<and> fst (snd s) = fst (snd t)
      \<and> rand_agree k crand1 (snd (snd s)) crand2 (snd (snd t)))"

definition step_agree ::
  "('c \<Rightarrow> int \<times> 'c) \<Rightarrow> ('d \<Rightarrow> int \<times> 'd) \<Rightarrow> nat \<Rightarrow> nat
     \<Rightarrow> (real list list \<times> real \<times> 'c) \<times> int list \<times> 'g
     \<Rightarrow> (real list list \<times> real \<times> 'd) \<times> int list \<times> 'g \<Rightarrow> bool" where
  "step_agree crand1 crand2 n k s t =
     (sweep_agree crand1 crand2 k (fst s) (fst t) \<and> snd s = snd t
      \<and> length (fst (snd s)) = n)"

text \<open>
  Line 117, \<^verbatim>\<open>sidx_shuff = rng.permutation(sidx_shuff)\<close>, as a function of the pair of
  the current order and the state of the generator.
\<close>

definition next_order ::
  "('g \<Rightarrow> int list \<Rightarrow> int list \<times> 'g) \<Rightarrow> int list \<times> 'g \<Rightarrow> int list \<times> 'g" where
  "next_order perm p = perm (snd p) (fst p)"

text \<open>
  The shapes the entry points expect: a configuration of \<open>nspins\<close> rows of \<open>slices\<close>
  entries; a neighbour table of \<open>nspins\<close> rows of equal width whose index entries
  truncate to spin indices; a generator whose permutation of a list consists of elements
  of that list.
\<close>

definition conf_shape :: "int \<Rightarrow> int \<Rightarrow> real list list \<Rightarrow> bool" where
  "conf_shape nspins slices confs =
     (int (length confs) = nspins \<and> list_all (\<lambda>row. int (length row) = slices) confs)"

definition nbs_shape :: "int \<Rightarrow> (real \<times> real) list list \<Rightarrow> bool" where
  "nbs_shape nspins nbs =
     (int (length nbs) = nspins
      \<and> list_all (\<lambda>row. int (length row) = maxnb_of nbs) nbs
      \<and> list_all (list_all (\<lambda>entry. 0 \<le> c_int (fst entry) \<and> c_int (fst entry) < nspins)) nbs)"

definition perm_ok :: "('g \<Rightarrow> int list \<Rightarrow> int list \<times> 'g) \<Rightarrow> bool" where
  "perm_ok perm = (\<forall>g xs. set (fst (perm g xs)) \<subseteq> set xs)"

text \<open>A generator whose permutation of a list has as many entries as that list.\<close>

definition perm_keeps_length :: "('g \<Rightarrow> int list \<Rightarrow> int list \<times> 'g) \<Rightarrow> bool" where
  "perm_keeps_length perm = (\<forall>g xs. length (fst (perm g xs)) = length xs)"

subsection \<open>Stand-ins for the generator and for \<^verbatim>\<open>rand()\<close>\<close>

text \<open>
  For runs on concrete arguments: a generator that hands a list back in the order it
  was given, one that does the same and counts its requests; a \<^verbatim>\<open>rand()\<close> that returns
  the same value at every call, whatever its state, one whose state is the value it
  returns at every call, and one that returns 0 and counts its calls.
\<close>

definition keep_order :: "'g \<Rightarrow> int list \<Rightarrow> int list \<times> 'g" where
  [simp]: "keep_order g xs = (xs, g)"

definition count_requests :: "nat \<Rightarrow> int list \<Rightarrow> int list \<times> nat" where
  [simp]: "count_requests n xs = (xs, Suc n)"

definition rand_const :: "int \<Rightarrow> 'c \<Rightarrow> int \<times> 'c" where
  [simp]: "rand_const k c = (k, c)"

definition rand_replay :: "int \<Rightarrow> int \<times> int" where
  [simp]: "rand_replay k = (k, k)"

definition rand_zero_counting :: "nat \<Rightarrow> int \<times> nat" where
  [simp]: "rand_zero_counting n = (0, Suc n)"

text \<open>
  A \<^verbatim>\<open>rand()\<close> whose state is the number of calls at which it still returns 0; from
  then on it returns \<open>m\<close>.
\<close>

definition rand_zero_then :: "int \<Rightarrow> nat \<Rightarrow> int \<times> nat" where
  [simp]: "rand_zero_then m n = (if n = 0 then m else 0, n - 1)"

section \<open>Properties\<close>

subsection \<open>Errors, loops and ranges\<close>

lemma ebind_Inr [simp]: "ebind (Inr x) f = f x"
  by (simp add: ebind_def)

lemma ebind_Inl [simp]: "ebind (Inl e) f = Inl e"
  by (simp add: ebind_def)

lemma ebind_eq_Inr: "ebind m f = Inr y \<longleftrightarrow> (\<exists>x. m = Inr x \<and> f x = Inr y)"
  by (cases m) simp_all

lemma for_each_append:
  "for_each body (xs @ ys) s = ebind (for_each body xs s) (for_each body ys)"
  by (induction xs arbitrary: s) (auto split: sum.splits)

text \<open>A property that every iteration keeps is kept by the loop.\<close>

lemma for_each_invariant:
  assumes "for_each body xs s = Inr s'" and "I s"
    and "\<And>x t t'. x \<in> set xs \<Longrightarrow> I t \<Longrightarrow> body x t = Inr t' \<Longrightarrow> I t'"
  shows "I s'"
  using assms
proof (induction xs arbitrary: s)
  case Nil
  then show ?case by simp
next
  case (Cons x xs)
  from Cons.prems(1) obtain t where t: "body x s = Inr t" and r: "for_each body xs t = Inr s'"
    by (auto split: sum.splits)
  have "I t" using Cons.prems(3)[OF _ Cons.prems(2) t] by simp
  then show ?case using Cons.IH[OF r] Cons.prems(3) by auto
qed

text \<open>A loop whose iterations all return, and keep what lets them return, returns.\<close>

lemma for_each_returns:
  assumes "I s"
    and "\<And>x t. x \<in> set xs \<Longrightarrow> I t \<Longrightarrow> \<exists>t'. body x t = Inr t' \<and> I t'"
  shows "\<exists>s'. for_each body xs s = Inr s' \<and> I s'"
  using assms
proof (induction xs arbitrary: s)
  case Nil
  then show ?case by simp
next
  case (Cons x xs)
  from Cons.prems(2)[of x s] Cons.prems(1)
  obtain t where t: "body x s = Inr t" and It: "I t" by auto
  from Cons.IH[OF It] Cons.prems(2)
  obtain s' where "for_each body xs t = Inr s'" and "I s'" by auto
  with t show ?case by simp
qed

text \<open>
  Two loops over the same list whose bodies keep two states related, the relation
  carrying a budget of which every iteration spends at most \<open>w\<close>: the loops end in the
  same error or in related states.
\<close>

lemma for_each_budget:
  assumes "\<And>x s t k. x \<in> set xs \<Longrightarrow> Rel (k + w) s t
             \<Longrightarrow> rel_sum (=) (Rel k) (body1 x s) (body2 x t)"
    and "Rel (k + w * length xs) s t"
  shows "rel_sum (=) (Rel k) (for_each body1 xs s) (for_each body2 xs t)"
  using assms
proof (induction xs arbitrary: s t)
  case Nil
  then show ?case by simp
next
  case (Cons x xs)
  have "Rel ((k + w * length xs) + w) s t"
    using Cons.prems(2) by (simp add: algebra_simps)
  then have h: "rel_sum (=) (Rel (k + w * length xs)) (body1 x s) (body2 x t)"
    using Cons.prems(1)[of x "k + w * length xs" s t] by simp
  show ?case
  proof (cases "body1 x s")
    case (Inl e)
    with h show ?thesis by (cases "body2 x t") simp_all
  next
    case (Inr s')
    with h obtain t' where t': "body2 x t = Inr t'" and r: "Rel (k + w * length xs) s' t'"
      by (cases "body2 x t") simp_all
    show ?thesis using Inr t' Cons.IH[OF _ r] Cons.prems(1) by simp
  qed
qed

text \<open>A loop whose iterations each apply \<open>f\<close> to a component of the state.\<close>

lemma for_each_funpow:
  assumes "\<And>x s s'. x \<in> set xs \<Longrightarrow> body x s = Inr s' \<Longrightarrow> h s' = f (h s)"
    and "for_each body xs s = Inr s'"
  shows "h s' = (f ^^ length xs) (h s)"
  using assms
proof (induction xs arbitrary: s)
  case Nil
  then show ?case by simp
next
  case (Cons x xs)
  from Cons.prems(2) obtain s1 where b: "body x s = Inr s1"
    and r: "for_each body xs s1 = Inr s'"
    by (cases "body x s") simp_all
  have "h s' = (f ^^ length xs) (h s1)"
    by (rule Cons.IH[OF _ r]) (use Cons.prems(1) in auto)
  also have "h s1 = f (h s)"
    using Cons.prems(1)[of x s s1] b by simp
  finally show ?case by (simp add: funpow_swap1)
qed

text \<open>A loop that adds one value per iteration adds their sum.\<close>

lemma for_each_accum:
  assumes "\<And>x. x \<in> set xs \<Longrightarrow> f x = Inr (t x)"
  shows "for_each (\<lambda>x e. ebind (f x) (\<lambda>v. Inr (e + v))) xs (e :: real)
           = Inr (e + sum_list (map t xs))"
  using assms by (induction xs arbitrary: e) (simp_all add: add.assoc)

lemma vec_add_Inr:
  "0 \<le> i \<Longrightarrow> i < int (length v) \<Longrightarrow> vec_add v i t = Inr (v[nat i := v ! nat i + t])"
  by (simp add: vec_add_def)

lemma for_each_vec_accum:
  assumes "\<And>x. x \<in> set xs \<Longrightarrow> f x = Inr (t x)" and "0 \<le> i" and "i < int (length v)"
  shows "for_each (\<lambda>x v. ebind (f x) (vec_add v i)) xs v
           = Inr (v[nat i := v ! nat i + sum_list (map t xs)])"
  using assms
proof (induction xs arbitrary: v)
  case Nil
  then show ?case by simp
next
  case (Cons x xs)
  have len: "i < int (length (v[nat i := v ! nat i + t x]))" using Cons.prems(3) by simp
  have "for_each (\<lambda>x v. ebind (f x) (vec_add v i)) (x # xs) v
          = for_each (\<lambda>x v. ebind (f x) (vec_add v i)) xs (v[nat i := v ! nat i + t x])"
    using Cons.prems by (simp add: vec_add_Inr)
  also have "\<dots> = Inr ((v[nat i := v ! nat i + t x])
        [nat i := (v[nat i := v ! nat i + t x]) ! nat i + sum_list (map t xs)])"
    using Cons.IH[OF _ Cons.prems(2) len] Cons.prems(1) by simp
  also have "\<dots> = Inr (v[nat i := v ! nat i + sum_list (map t (x # xs))])"
    using Cons.prems(2,3) by (simp add: add.assoc)
  finally show ?case .
qed

lemma xrange_nonpos [simp]: "n \<le> 0 \<Longrightarrow> xrange n = []"
  by (simp add: xrange_def)

lemma set_xrange [simp]: "set (xrange n) = {0..<n}"
  by (auto simp: xrange_def)

lemma length_xrange: "length (xrange n) = nat n"
  by (simp add: xrange_def)

lemma xrange_1 [simp]: "xrange 1 = [0]"
  by (simp add: xrange_def upto.simps)

lemma xrange_2 [simp]: "xrange 2 = [0, 1]"
  by (simp add: xrange_def upto.simps)

lemma sum_list_xrange: "sum_list (map t (xrange n)) = (\<Sum>si = 0..<n. t si)"
proof -
  have "distinct (xrange n)" by (simp add: xrange_def)
  then have "sum_list (map t (xrange n)) = sum t (set (xrange n))"
    by (rule sum_list_distinct_conv_sum_set)
  then show ?thesis by simp
qed

subsection \<open>Runs on concrete arguments\<close>

lemma xrange_3 [simp]: "xrange 3 = [0, 1, 2]"
  by (simp add: xrange_def upto.simps)

text \<open>The coupling coefficient for two slices, temperature 1 and field 1 is positive.\<close>

lemma jperp_pos: "0 < jperp_value 2 1 1"
proof -
  have "0 < tanh (0.5 :: real)" by simp
  moreover have "tanh (0.5 :: real) < 1" by (rule tanh_real_lt_1)
  ultimately have "ln (tanh (0.5 :: real)) < 0" by simp
  then show ?thesis by (simp add: jperp_value_def)
qed

text \<open>The definitions that a run on concrete arguments unfolds.\<close>

lemmas engine_defs =
  trotter_nbrs_def trotter_terms_def ediff_accum_def nb_term_def c_int_def
  nb_loop_def par_nb_loop_def spin_update_def par_spin_update_def accept_reject_def
  uniform_draw_def arr_get_def in_bounds_def vec_add_def vec_get_def conf_flip_def
  slice_sweep_def par_slice_sweep_def mc_step_def par_mc_step_def sched_point_def
  par_sched_point_def QuantumAnneal_def QuantumAnneal_parallel_def maxnb_of_def
  jperp_coeff_def

subsection \<open>The two neighbouring slices\<close>

text \<open>
  Whatever the current slice, both engines read the inter-slice terms from slice
  \<open>slices - 1\<close> (as left neighbour) and slice 1 (as right neighbour): the test is made
  on \<^verbatim>\<open>tidx\<close>, which stays 0.
\<close>

lemma trotter_terms_fixed:
  "trotter_terms jperp slices confs sidx islice =
     ebind (arr_get confs sidx islice) (\<lambda>s.
     ebind (arr_get confs sidx (slices - 1)) (\<lambda>sl.
     ebind (arr_get confs sidx 1) (\<lambda>sr.
       Inr (- 2 * s * (jperp * sl) + - 2 * s * (jperp * sr)))))"
  by (simp add: trotter_terms_def trotter_nbrs_def)

text \<open>
  Claim C1 says that every spin update takes the left and right neighbours of the
  current slice with wrap-around: \<open>k - 1\<close> and \<open>k + 1\<close> for a slice \<open>k\<close> strictly
  between 0 and \<open>P - 1\<close>. The code does not: with three slices and the current slice 1
  the neighbours by the claim are 0 and 2, the code reads slices 2 and 1 (and with two
  slices and the current slice 1, slice 1 twice where the claim has slice 0). On the row
  \<open>[-1, 1, -1]\<close> with \<open>jperp = 1\<close> the two terms of the code sum to 0 (those of the
  claim to 4), and with \<^verbatim>\<open>rand()\<close> returning \<^verbatim>\<open>RAND_MAX\<close> either engine leaves
  the spin as it is, where an energy difference of 4 would flip it. So does a whole call
  on that row with the schedule \<open>[1]\<close>, one step and temperature 1: every energy
  difference the code computes is 0 and the configuration comes back unchanged, where
  the neighbours of the claim flip the entry of slice 1.
\<close>

theorem interior_slice_neighbours:
  "spec_trotter_nbrs 3 1 = (0, 2)
   \<and> trotter_nbrs 0 3 1 = (2, 1)
   \<and> spec_trotter_nbrs 2 1 = (0, 0)
   \<and> trotter_nbrs 0 2 1 = (1, 1)
   \<and> trotter_terms 1 3 [[- 1, 1, - 1]] 0 1 = Inr 0
   \<and> ediff_accum 1 3 [[]] 0 [[- 1, 1, - 1]] 1 0 0 = Inr 0
   \<and> spin_update (rand_const 32767) 32767 1 3 1 [[]] 0 1 0 ([[- 1, 1, - 1]], 0, ())
       = Inr ([[- 1, 1, - 1]], 0, ())
   \<and> par_spin_update (rand_const 32767) 32767 1 3 1 [[]] 0 1 0 ([[- 1, 1, - 1]], [0], ())
       = Inr ([[- 1, 1, - 1]], [0], ())
   \<and> QuantumAnneal keep_order (rand_const 32767) 32767 [1] 1 3 1 1 [[- 1, 1, - 1]] [[]] () ()
       = Inr ([[- 1, 1, - 1]], (), ())
   \<and> QuantumAnneal_parallel (rand_const 32767) 32767 [1] 1 3 1 1 [[- 1, 1, - 1]] [[]] ()
       = Inr ([[- 1, 1, - 1]], ())"
  by (simp add: spec_trotter_nbrs_def engine_defs)

text \<open>
  Claim C7 says that with one slice both neighbours resolve to slice 0 and no read
  leaves the configuration. The code does not: with \<open>slices = 1\<close> the left neighbour is
  slice 0 and the right neighbour is slice 1, which a configuration of one slice does
  not have. The read of \<^verbatim>\<open>confs[sidx, 1]\<close> is out of bounds, in the first spin
  update of either engine, for every temperature other than 0 (for which line 76 or
  171 raises before any update).
\<close>

theorem single_slice_out_of_bounds:
  "trotter_nbrs 0 1 0 = (0, 1)
   \<and> arr_get [[1 :: real]] 0 1 = Inl OutOfBounds
   \<and> trotter_terms jperp 1 [[1]] 0 0 = Inl OutOfBounds
   \<and> QuantumAnneal keep_order crand RAND_MAX [field] 1 1 temp 1 [[1]] [[]] g c
       = (if temp = 0 then Inl ZeroDivisionError else Inl OutOfBounds)
   \<and> QuantumAnneal_parallel crand RAND_MAX [field] 1 1 temp 1 [[1]] [[]] c
       = (if temp = 0 then Inl ZeroDivisionError else Inl OutOfBounds)"
  by (simp add: engine_defs)

subsection \<open>The intra-slice energy\<close>

lemma nb_term_spec:
  "nb_reads_in_bounds confs nbs sidx islice si
   \<Longrightarrow> nb_term confs nbs sidx islice si = Inr (spec_nb_term confs nbs sidx islice si)"
  by (auto simp: nb_reads_in_bounds_def nb_term_def spec_nb_term_def arr_get_def Let_def
      split: prod.splits)

lemma nb_loop_value:
  assumes "list_all (nb_reads_in_bounds confs nbs sidx islice) (xrange maxnb)"
  shows "nb_loop confs nbs maxnb sidx islice ediff
           = Inr (ediff + (\<Sum>si = 0..<maxnb. spec_nb_term confs nbs sidx islice si))"
proof -
  have t: "\<And>si. si \<in> set (xrange maxnb) \<Longrightarrow>
             nb_term confs nbs sidx islice si = Inr (spec_nb_term confs nbs sidx islice si)"
    using assms by (simp add: list_all_iff nb_term_spec del: set_xrange)
  show ?thesis
    unfolding nb_loop_def
    using for_each_accum[of "xrange maxnb" "nb_term confs nbs sidx islice"
        "spec_nb_term confs nbs sidx islice" ediff] t
    by (simp add: sum_list_xrange del: set_xrange)
qed

lemma par_nb_loop_value:
  assumes "list_all (nb_reads_in_bounds confs nbs sidx islice) (xrange maxnb)"
    and "0 \<le> sidx" and "sidx < int (length ediffs)"
  shows "par_nb_loop confs nbs maxnb sidx islice ediffs
           = Inr (ediffs[nat sidx := ediffs ! nat sidx
                   + (\<Sum>si = 0..<maxnb. spec_nb_term confs nbs sidx islice si)])"
proof -
  have t: "\<And>si. si \<in> set (xrange maxnb) \<Longrightarrow>
             nb_term confs nbs sidx islice si = Inr (spec_nb_term confs nbs sidx islice si)"
    using assms(1) by (simp add: list_all_iff nb_term_spec del: set_xrange)
  show ?thesis
    unfolding par_nb_loop_def
    using for_each_vec_accum[of "xrange maxnb" "nb_term confs nbs sidx islice"
        "spec_nb_term confs nbs sidx islice" sidx ediffs] t assms(2,3)
    by (simp add: sum_list_xrange del: set_xrange)
qed

text \<open>The width that the entry points read off the neighbour table is that of its row 0.\<close>

lemma maxnb_of_row0: "nbs \<noteq> [] \<Longrightarrow> maxnb_of nbs = int (length (nbs ! 0))"
  by (cases nbs) (simp_all add: maxnb_of_def)

text \<open>
  Claim C2. Both entry points run the neighbour loop over \<^verbatim>\<open>maxnb = nbs[0].shape[0]\<close>
  entries. When the table has a row 0, the reads made for these entries lie inside the
  arrays and the two inter-slice terms come to \<open>t\<close>, the energy difference of spin
  \<open>sidx\<close> in slice \<open>islice\<close> is what the accumulator held, plus the sum over all
  \<^verbatim>\<open>nbs[0].shape[0]\<close> entries of the spin's neighbour list of \<open>-2 * s * J\<close> for an
  entry whose index is the spin's own and of \<open>-2 * s * J * s'\<close> for any other entry
  (\<open>s'\<close> the neighbour's spin in the same slice), plus \<open>t\<close>. The spin update of the
  serial engine decides on that value and leaves it in \<^verbatim>\<open>ediff\<close>; the spin update of
  the parallel engine decides on that value and leaves it in \<^verbatim>\<open>ediffs[sidx]\<close>.
\<close>

theorem intra_slice_energy:
  assumes "nbs \<noteq> []"
    and "list_all (nb_reads_in_bounds confs nbs sidx islice) (xrange (int (length (nbs ! 0))))"
    and "trotter_terms jperp slices confs sidx islice = Inr t"
  shows "ediff_accum jperp slices nbs (maxnb_of nbs) confs islice sidx ediff
           = Inr (ediff
                  + (\<Sum>si = 0..<int (length (nbs ! 0)). spec_nb_term confs nbs sidx islice si)
                  + t)
       \<and> spin_update crand RAND_MAX jperp slices temp nbs (maxnb_of nbs) islice sidx
             (confs, ediff, c)
           = ebind
               (accept_reject crand RAND_MAX temp
                  (ediff
                   + (\<Sum>si = 0..<int (length (nbs ! 0)). spec_nb_term confs nbs sidx islice si)
                   + t)
                  confs sidx islice c)
               (\<lambda>(confs', c').
                  Inr (confs',
                       ediff
                       + (\<Sum>si = 0..<int (length (nbs ! 0)).
                            spec_nb_term confs nbs sidx islice si)
                       + t,
                       c'))
       \<and> (0 \<le> sidx \<and> sidx < int (length ediffs) \<longrightarrow>
            par_spin_update crand RAND_MAX jperp slices temp nbs (maxnb_of nbs) islice sidx
                (confs, ediffs, c)
              = ebind
                  (accept_reject crand RAND_MAX temp
                     (ediffs ! nat sidx
                      + (\<Sum>si = 0..<int (length (nbs ! 0)).
                           spec_nb_term confs nbs sidx islice si)
                      + t)
                     confs sidx islice c)
                  (\<lambda>(confs', c').
                     Inr (confs',
                          ediffs[nat sidx := ediffs ! nat sidx
                            + (\<Sum>si = 0..<int (length (nbs ! 0)).
                                 spec_nb_term confs nbs sidx islice si)
                            + t],
                          c')))
       \<and> QuantumAnneal perm crand RAND_MAX sched mcsteps slices temp nspins confs nbs g c
           = ebind
               (for_each
                  (sched_point perm crand RAND_MAX mcsteps slices temp nbs
                     (int (length (nbs ! 0))))
                  sched
                  ((confs, 0, c), fst (perm g (xrange nspins)), snd (perm g (xrange nspins))))
               (\<lambda>((confs', ediff', c'), sidx_shuff', g'). Inr (confs', g', c'))
       \<and> QuantumAnneal_parallel crand RAND_MAX sched mcsteps slices temp nspins confs nbs c
           = (if nspins < 0 then Inl NegativeDimension
              else ebind
                (for_each
                   (par_sched_point crand RAND_MAX mcsteps slices temp nbs
                      (int (length (nbs ! 0))) nspins)
                   sched (confs, replicate (nat nspins) 0, c))
                (\<lambda>(confs', ediffs', c'). Inr (confs', c')))"
proof -
  let ?S = "\<Sum>si = 0..<int (length (nbs ! 0)). spec_nb_term confs nbs sidx islice si"
  have m: "maxnb_of nbs = int (length (nbs ! 0))"
    using assms(1) by (rule maxnb_of_row0)
  have acc: "ediff_accum jperp slices nbs (maxnb_of nbs) confs islice sidx ediff
               = Inr (ediff + ?S + t)" for ediff
    by (simp add: ediff_accum_def m nb_loop_value[OF assms(2)] assms(3))
  have ser: "spin_update crand RAND_MAX jperp slices temp nbs (maxnb_of nbs) islice sidx
               (confs, ediff, c)
             = ebind (accept_reject crand RAND_MAX temp (ediff + ?S + t) confs sidx islice c)
                 (\<lambda>(confs', c'). Inr (confs', ediff + ?S + t, c'))"
    by (simp add: spin_update_def acc)
  have par: "par_spin_update crand RAND_MAX jperp slices temp nbs (maxnb_of nbs) islice sidx
               (confs, ediffs, c)
             = ebind
                 (accept_reject crand RAND_MAX temp (ediffs ! nat sidx + ?S + t)
                    confs sidx islice c)
                 (\<lambda>(confs', c').
                    Inr (confs', ediffs[nat sidx := ediffs ! nat sidx + ?S + t], c'))"
    if "0 \<le> sidx" "sidx < int (length ediffs)"
  proof -
    have n: "nat sidx < length ediffs"
      using that by auto
    show ?thesis
      using that n
      by (simp add: par_spin_update_def m par_nb_loop_value[OF assms(2) that] assms(3)
          vec_add_def vec_get_def)
  qed
  have qa: "QuantumAnneal perm crand RAND_MAX sched mcsteps slices temp nspins confs nbs g c
           = ebind
               (for_each
                  (sched_point perm crand RAND_MAX mcsteps slices temp nbs
                     (int (length (nbs ! 0))))
                  sched
                  ((confs, 0, c), fst (perm g (xrange nspins)), snd (perm g (xrange nspins))))
               (\<lambda>((confs', ediff', c'), sidx_shuff', g'). Inr (confs', g', c'))"
    by (simp add: QuantumAnneal_def m Let_def split: prod.splits)
  have qp: "QuantumAnneal_parallel crand RAND_MAX sched mcsteps slices temp nspins confs nbs c
           = (if nspins < 0 then Inl NegativeDimension
              else ebind
                (for_each
                   (par_sched_point crand RAND_MAX mcsteps slices temp nbs
                      (int (length (nbs ! 0))) nspins)
                   sched (confs, replicate (nat nspins) 0, c))
                (\<lambda>(confs', ediffs', c'). Inr (confs', c')))"
    by (simp add: QuantumAnneal_parallel_def m Let_def)
  show ?thesis
    using acc ser par qa qp by blast
qed

text \<open>
  Two spins in two slices; spin 0 has a self entry of coupling 3 and the neighbour 1 with
  coupling 2. In slice 0, where spin 0 is \<open>+1\<close> and spin 1 is \<open>-1\<close>, the entries add
  \<open>-6 + 4 = -2\<close>; with coupling 1 between the slices the inter-slice terms add 4. The
  energy difference is 2 and the spin is flipped.
\<close>

theorem intra_slice_energy_witness:
  "[[(0, 3), (1, 2)], [(0, 2), (1, 0)]] \<noteq> ([] :: (real \<times> real) list list)
   \<and> list_all (nb_reads_in_bounds [[1, - 1], [- 1, 1]] [[(0, 3), (1, 2)], [(0, 2), (1, 0)]] 0 0)
       (xrange (int (length ([[(0, 3), (1, 2)], [(0, 2), (1, 0)]] ! 0 :: (real \<times> real) list))))
   \<and> trotter_terms 1 2 [[1, - 1], [- 1, 1]] 0 0 = Inr 4
   \<and> ediff_accum 1 2 [[(0, 3), (1, 2)], [(0, 2), (1, 0)]]
         (maxnb_of [[(0, 3), (1, 2)], [(0, 2), (1, 0)]]) [[1, - 1], [- 1, 1]] 0 0 0
       = Inr (0
              + (\<Sum>si = 0..<int (length ([[(0, 3), (1, 2)], [(0, 2), (1, 0)]] ! 0
                                             :: (real \<times> real) list)).
                   spec_nb_term [[1, - 1], [- 1, 1]] [[(0, 3), (1, 2)], [(0, 2), (1, 0)]] 0 0 si)
              + 4)
   \<and> ediff_accum 1 2 [[(0, 3), (1, 2)], [(0, 2), (1, 0)]]
         (maxnb_of [[(0, 3), (1, 2)], [(0, 2), (1, 0)]]) [[1, - 1], [- 1, 1]] 0 0 0
       = Inr 2
   \<and> spin_update (rand_const 0) 1 1 2 1 [[(0, 3), (1, 2)], [(0, 2), (1, 0)]]
         (maxnb_of [[(0, 3), (1, 2)], [(0, 2), (1, 0)]]) 0 0 ([[1, - 1], [- 1, 1]], 0, ())
       = Inr ([[- 1, - 1], [- 1, 1]], 2, ())
   \<and> par_spin_update (rand_const 0) 1 1 2 1 [[(0, 3), (1, 2)], [(0, 2), (1, 0)]]
         (maxnb_of [[(0, 3), (1, 2)], [(0, 2), (1, 0)]]) 0 0 ([[1, - 1], [- 1, 1]], [0, 0], ())
       = Inr ([[- 1, - 1], [- 1, 1]], [2, 0], ())"
proof -
  let ?N = "[[(0, 3), (1, 2)], [(0, 2), (1, 0)]] :: (real \<times> real) list list"
  let ?C = "[[1, - 1], [- 1, 1]] :: real list list"
  have h1: "?N \<noteq> []"
    by simp
  have h2: "list_all (nb_reads_in_bounds ?C ?N 0 0) (xrange (int (length (?N ! 0))))"
    by (simp add: nb_reads_in_bounds_def in_bounds_def c_int_def)
  have h3: "trotter_terms 1 2 ?C 0 0 = Inr 4"
    by (simp add: trotter_terms_def trotter_nbrs_def arr_get_def in_bounds_def)
  have v: "ediff_accum 1 2 ?N (maxnb_of ?N) ?C 0 0 0 = Inr 2"
    by (simp add: ediff_accum_def maxnb_of_def nb_loop_def nb_term_def trotter_terms_def
        trotter_nbrs_def arr_get_def in_bounds_def c_int_def)
  have s: "spin_update (rand_const 0) 1 1 2 1 ?N (maxnb_of ?N) 0 0 (?C, 0, ())
             = Inr ([[- 1, - 1], [- 1, 1]], 2, ())"
    by (simp add: spin_update_def v accept_reject_def conf_flip_def in_bounds_def)
  have p: "par_spin_update (rand_const 0) 1 1 2 1 ?N (maxnb_of ?N) 0 0 (?C, [0, 0], ())
             = Inr ([[- 1, - 1], [- 1, 1]], [2, 0], ())"
    by (simp add: par_spin_update_def par_nb_loop_def maxnb_of_def nb_term_def
        trotter_terms_def trotter_nbrs_def arr_get_def in_bounds_def c_int_def vec_add_def
        vec_get_def accept_reject_def conf_flip_def)
  have a: "ediff_accum 1 2 ?N (maxnb_of ?N) ?C 0 0 0
             = Inr (0 + (\<Sum>si = 0..<int (length (?N ! 0)). spec_nb_term ?C ?N 0 0 si) + 4)"
    using intra_slice_energy[OF h1 h2 h3, where ediff = 0] by (rule conjunct1)
  from h1 h2 h3 a v s p show ?thesis
    by blast
qed

subsection \<open>Accept or reject\<close>

lemma conf_flip_in_bounds:
  "in_bounds confs i j \<Longrightarrow> conf_flip confs i j = Inr (flip_spin confs i j)"
  by (simp add: conf_flip_def flip_spin_def)

lemma ediff_accum_in_bounds:
  assumes "ediff_accum jperp slices nbs maxnb confs islice sidx e0 = Inr ediff"
  shows "in_bounds confs sidx islice"
  using assms
  by (auto simp: ediff_accum_def trotter_terms_def ebind_eq_Inr arr_get_def Let_def
      split: prod.splits if_splits)

lemma uniform_draw_range:
  assumes "0 < RAND_MAX" and "0 \<le> k" and "k \<le> RAND_MAX"
  shows "0 \<le> uniform_draw RAND_MAX k \<and> uniform_draw RAND_MAX k \<le> 1"
  using assms by (simp add: uniform_draw_def)

text \<open>
  Claim C3, as amended. In a spin update of the serial engine whose energy difference
  \<^verbatim>\<open>ediff\<close> is computed without a read out of bounds, and with a temperature other
  than 0: if \<^verbatim>\<open>ediff > 0\<close> the spin is flipped and \<^verbatim>\<open>rand()\<close> is not called;
  otherwise \<^verbatim>\<open>rand()\<close> is called once and the spin is flipped if and only if
  \<open>exp (ediff / temp)\<close> is strictly greater than the draw \<^verbatim>\<open>rand() / RAND_MAX\<close>, and
  left as it is otherwise. For a value of \<^verbatim>\<open>rand()\<close> between 0 and \<^verbatim>\<open>RAND_MAX\<close>
  the draw lies in the closed interval from 0 to 1.
\<close>

theorem metropolis_acceptance:
  assumes "ediff_accum jperp slices nbs maxnb confs islice sidx e0 = Inr ediff"
    and "temp \<noteq> 0"
  shows "spin_update crand RAND_MAX jperp slices temp nbs maxnb islice sidx (confs, e0, c)
           = Inr (if 0 < ediff \<or> uniform_draw RAND_MAX (fst (crand c)) < exp (ediff / temp)
                  then flip_spin confs sidx islice else confs,
                  ediff,
                  if 0 < ediff then c else snd (crand c))
         \<and> (0 < RAND_MAX \<and> 0 \<le> fst (crand c) \<and> fst (crand c) \<le> RAND_MAX \<longrightarrow>
              0 \<le> uniform_draw RAND_MAX (fst (crand c))
              \<and> uniform_draw RAND_MAX (fst (crand c)) \<le> 1)"
proof -
  have b: "in_bounds confs sidx islice" by (rule ediff_accum_in_bounds[OF assms(1)])
  show ?thesis
    using assms uniform_draw_range[of RAND_MAX "fst (crand c)"]
    by (simp add: spin_update_def accept_reject_def conf_flip_in_bounds[OF b] Let_def
        split: prod.splits)
qed

text \<open>
  The claim as it stands gives the draw the half-open interval from 0 to 1, so that an
  energy difference of exactly 0, for which \<open>exp (ediff / temp) = 1\<close>, always flips the
  spin. When \<^verbatim>\<open>rand()\<close> returns \<^verbatim>\<open>RAND_MAX\<close> the draw is 1, not below 1, and the
  spin with energy difference 0 stays as it is.
\<close>

theorem draw_can_equal_one:
  "ediff_accum 1 3 [[]] 0 [[- 1, 1, - 1]] 1 0 0 = Inr 0
   \<and> exp (0 / 1 :: real) = 1
   \<and> uniform_draw 32767 (fst (rand_const 32767 ())) = 1
   \<and> \<not> uniform_draw 32767 (fst (rand_const 32767 ())) < 1
   \<and> spin_update (rand_const 32767) 32767 1 3 1 [[]] 0 1 0 ([[- 1, 1, - 1]], 0, ())
       = Inr ([[- 1, 1, - 1]], 0, ())"
  by (simp add: engine_defs)

text \<open>
  One spin in two slices, both \<open>+1\<close>, \<open>jperp = 1\<close>: the energy difference in slice 0 is
  \<open>-4\<close>; with a draw of 0 the spin is flipped.
\<close>

theorem metropolis_acceptance_witness:
  "ediff_accum 1 2 [[]] 0 [[1, 1]] 0 0 0 = Inr (- 4)
   \<and> (1 :: real) \<noteq> 0
   \<and> spin_update (rand_const 0) 32767 1 2 1 [[]] 0 0 0 ([[1, 1]], 0, ())
       = Inr ([[- 1, 1]], - 4, ())
   \<and> 0 \<le> uniform_draw 32767 0 \<and> uniform_draw 32767 0 \<le> 1"
proof -
  have h: "ediff_accum 1 2 [[]] 0 [[1, 1]] 0 0 0 = Inr (- 4)"
    by (simp add: engine_defs)
  have t: "(1 :: real) \<noteq> 0" by simp
  show ?thesis
    using h metropolis_acceptance[OF h t, of "rand_const 0" 32767 "()"]
    by (simp add: flip_spin_def uniform_draw_def)
qed

subsection \<open>The accumulator of the serial engine\<close>

text \<open>
  Claim C4 says that \<^verbatim>\<open>ediff\<close> is reset before each next spin, so that a spin's
  decision rests on its own energy difference. The code resets it after the loop over
  the spins, once per slice. Two spins in two slices, \<open>jperp = 1\<close>, self entries of
  coupling 5 and 1, \<^verbatim>\<open>rand()\<close> returning \<^verbatim>\<open>RAND_MAX\<close>: spin 0 is flipped with an
  energy difference of 14; spin 1, whose own energy difference is \<open>-6\<close>, is then
  decided on \<open>14 - 6 = 8\<close> and flipped. Decided on \<open>-6\<close> it stays as it is, which is
  what the parallel engine, with one accumulator per spin, does on the same input. The
  two entry points, called on that input with the schedule \<open>[1]\<close>, one step and
  temperature 1, return different configurations for the same reason.
\<close>

theorem ediff_carried_between_spins:
  "slice_sweep (rand_const 32767) 32767 1 2 1 [[(0, 5)], [(1, 1)]] 1 [0, 1] 0
       ([[- 1, 1], [1, 1]], 0, ())
     = Inr ([[1, 1], [- 1, 1]], 0, ())
   \<and> spin_update (rand_const 32767) 32767 1 2 1 [[(0, 5)], [(1, 1)]] 1 0 0
       ([[- 1, 1], [1, 1]], 0, ())
     = Inr ([[1, 1], [1, 1]], 14, ())
   \<and> spin_update (rand_const 32767) 32767 1 2 1 [[(0, 5)], [(1, 1)]] 1 0 1
       ([[1, 1], [1, 1]], 14, ())
     = Inr ([[1, 1], [- 1, 1]], 8, ())
   \<and> spin_update (rand_const 32767) 32767 1 2 1 [[(0, 5)], [(1, 1)]] 1 0 1
       ([[1, 1], [1, 1]], 0, ())
     = Inr ([[1, 1], [1, 1]], - 6, ())
   \<and> par_slice_sweep (rand_const 32767) 32767 1 2 1 [[(0, 5)], [(1, 1)]] 1 2 0
       ([[- 1, 1], [1, 1]], [0, 0], ())
     = Inr ([[1, 1], [1, 1]], [0, 0], ())
   \<and> QuantumAnneal keep_order (rand_const 32767) 32767 [1] 1 2 1 2 [[- 1, 1], [1, 1]]
       [[(0, 5)], [(1, 1)]] () ()
     = Inr ([[1, 1], [- 1, 1]], (), ())
   \<and> QuantumAnneal_parallel (rand_const 32767) 32767 [1] 1 2 1 2 [[- 1, 1], [1, 1]]
       [[(0, 5)], [(1, 1)]] ()
     = Inr ([[1, 1], [1, 1]], ())"
  using jperp_pos by (simp add: engine_defs Let_def)

subsection \<open>The inter-slice coupling\<close>

text \<open>The entry points with their four loops written out.\<close>

lemma QuantumAnneal_loops:
  "QuantumAnneal perm crand RAND_MAX sched mcsteps slices temp nspins confs nbs g c
     = ebind
         (for_each
            (\<lambda>field st.
               if real_of_int slices * temp = 0 then Inl ZeroDivisionError
               else for_each
                 (\<lambda>step st. case st of (sw, sidx_shuff, g) \<Rightarrow>
                    ebind
                      (for_each
                         (\<lambda>islice sw.
                            ebind
                              (for_each
                                 (spin_update crand RAND_MAX
                                    (- 0.5 * real_of_int slices * temp
                                       * ln (tanh (field / (real_of_int slices * temp))))
                                    slices temp nbs (maxnb_of nbs) islice)
                                 sidx_shuff sw)
                              (\<lambda>(confs', ediff', c'). Inr (confs', 0, c')))
                         (xrange slices) sw)
                      (\<lambda>sw'. let (sidx_shuff', g') = perm g sidx_shuff
                             in Inr (sw', sidx_shuff', g')))
                 (xrange mcsteps) st)
            sched
            ((confs, 0, c), fst (perm g (xrange nspins)), snd (perm g (xrange nspins))))
         (\<lambda>((confs', ediff', c'), sidx_shuff', g'). Inr (confs', g', c'))"
proof -
  have body: "sched_point perm crand RAND_MAX mcsteps slices temp nbs (maxnb_of nbs)
      = (\<lambda>field st.
               if real_of_int slices * temp = 0 then Inl ZeroDivisionError
               else for_each
                 (\<lambda>step st. case st of (sw, sidx_shuff, g) \<Rightarrow>
                    ebind
                      (for_each
                         (\<lambda>islice sw.
                            ebind
                              (for_each
                                 (spin_update crand RAND_MAX
                                    (- 0.5 * real_of_int slices * temp
                                       * ln (tanh (field / (real_of_int slices * temp))))
                                    slices temp nbs (maxnb_of nbs) islice)
                                 sidx_shuff sw)
                              (\<lambda>(confs', ediff', c'). Inr (confs', 0, c')))
                         (xrange slices) sw)
                      (\<lambda>sw'. let (sidx_shuff', g') = perm g sidx_shuff
                             in Inr (sw', sidx_shuff', g')))
                 (xrange mcsteps) st)"
    by (intro ext)
      (simp add: sched_point_def jperp_coeff_def jperp_value_def mc_step_def[abs_def]
        slice_sweep_def[abs_def])
  show ?thesis
    unfolding body[symmetric]
    by (simp add: QuantumAnneal_def Let_def split: prod.splits)
qed

lemma QuantumAnneal_parallel_loops:
  "QuantumAnneal_parallel crand RAND_MAX sched mcsteps slices temp nspins confs nbs c
     = (if nspins < 0 then Inl NegativeDimension
        else ebind
          (for_each
             (\<lambda>field st.
                if real_of_int slices * temp = 0 then Inl ZeroDivisionError
                else for_each
                  (\<lambda>step st.
                     for_each
                       (\<lambda>islice st.
                          ebind
                            (for_each
                               (par_spin_update crand RAND_MAX
                                  (- 0.5 * real_of_int slices * temp
                                     * ln (tanh (field / (real_of_int slices * temp))))
                                  slices temp nbs (maxnb_of nbs) islice)
                               (xrange nspins) st)
                            (\<lambda>(confs', ediffs', c'). Inr (confs', map (\<lambda>_. 0) ediffs', c')))
                       (xrange slices) st)
                  (xrange mcsteps) st)
             sched (confs, replicate (nat nspins) 0, c))
          (\<lambda>(confs', ediffs', c'). Inr (confs', c')))"
proof -
  have body: "par_sched_point crand RAND_MAX mcsteps slices temp nbs (maxnb_of nbs) nspins
      = (\<lambda>field st.
                if real_of_int slices * temp = 0 then Inl ZeroDivisionError
                else for_each
                  (\<lambda>step st.
                     for_each
                       (\<lambda>islice st.
                          ebind
                            (for_each
                               (par_spin_update crand RAND_MAX
                                  (- 0.5 * real_of_int slices * temp
                                     * ln (tanh (field / (real_of_int slices * temp))))
                                  slices temp nbs (maxnb_of nbs) islice)
                               (xrange nspins) st)
                            (\<lambda>(confs', ediffs', c'). Inr (confs', map (\<lambda>_. 0) ediffs', c')))
                       (xrange slices) st)
                  (xrange mcsteps) st)"
    by (intro ext)
      (simp add: par_sched_point_def jperp_coeff_def jperp_value_def par_mc_step_def[abs_def]
        par_slice_sweep_def[abs_def])
  show ?thesis
    unfolding body[symmetric]
    by (simp add: QuantumAnneal_parallel_def Let_def)
qed

text \<open>
  Claim C5. The coefficient is
  \<open>-0.5 * slices * temp * ln (tanh (field / (slices * temp)))\<close>, and raises where
  \<^verbatim>\<open>slices*temp\<close> is 0; for two slices, temperature 1 and field 1 it is
  \<open>-1 * ln (tanh 0.5)\<close>. In both entry points the expression stands in the body of the
  loop over the schedule, outside the loops over the steps, the slices and the spins:
  it is computed once for each schedule point, from that point's field, and every spin
  update of that point uses its value. For the schedule \<open>[1]\<close>, two slices and
  temperature 1, every step of either entry point runs with \<open>-1 * ln (tanh 0.5)\<close>.
\<close>

theorem jperp_per_schedule_point:
  "jperp_coeff 2 1 1 = Inr (- 1 * ln (tanh 0.5))
   \<and> jperp_coeff slices temp field
       = (if real_of_int slices * temp = 0 then Inl ZeroDivisionError
          else Inr (- 0.5 * real_of_int slices * temp
                      * ln (tanh (field / (real_of_int slices * temp)))))
   \<and> QuantumAnneal perm crand RAND_MAX sched mcsteps slices temp nspins confs nbs g c
       = ebind
         (for_each
            (\<lambda>field st.
               if real_of_int slices * temp = 0 then Inl ZeroDivisionError
               else for_each
                 (\<lambda>step st. case st of (sw, sidx_shuff, g) \<Rightarrow>
                    ebind
                      (for_each
                         (\<lambda>islice sw.
                            ebind
                              (for_each
                                 (spin_update crand RAND_MAX
                                    (- 0.5 * real_of_int slices * temp
                                       * ln (tanh (field / (real_of_int slices * temp))))
                                    slices temp nbs (maxnb_of nbs) islice)
                                 sidx_shuff sw)
                              (\<lambda>(confs', ediff', c'). Inr (confs', 0, c')))
                         (xrange slices) sw)
                      (\<lambda>sw'. let (sidx_shuff', g') = perm g sidx_shuff
                             in Inr (sw', sidx_shuff', g')))
                 (xrange mcsteps) st)
            sched
            ((confs, 0, c), fst (perm g (xrange nspins)), snd (perm g (xrange nspins))))
         (\<lambda>((confs', ediff', c'), sidx_shuff', g'). Inr (confs', g', c'))
   \<and> QuantumAnneal_parallel crand RAND_MAX sched mcsteps slices temp nspins confs nbs c
       = (if nspins < 0 then Inl NegativeDimension
          else ebind
            (for_each
               (\<lambda>field st.
                  if real_of_int slices * temp = 0 then Inl ZeroDivisionError
                  else for_each
                    (\<lambda>step st.
                       for_each
                         (\<lambda>islice st.
                            ebind
                              (for_each
                                 (par_spin_update crand RAND_MAX
                                    (- 0.5 * real_of_int slices * temp
                                       * ln (tanh (field / (real_of_int slices * temp))))
                                    slices temp nbs (maxnb_of nbs) islice)
                                 (xrange nspins) st)
                              (\<lambda>(confs', ediffs', c'). Inr (confs', map (\<lambda>_. 0) ediffs', c')))
                         (xrange slices) st)
                    (xrange mcsteps) st)
               sched (confs, replicate (nat nspins) 0, c))
            (\<lambda>(confs', ediffs', c'). Inr (confs', c')))
   \<and> QuantumAnneal perm crand RAND_MAX [1] mcsteps 2 1 nspins confs nbs g c
       = ebind
           (for_each (mc_step perm crand RAND_MAX (- 1 * ln (tanh 0.5)) 2 1 nbs (maxnb_of nbs))
              (xrange mcsteps)
              ((confs, 0, c), fst (perm g (xrange nspins)), snd (perm g (xrange nspins))))
           (\<lambda>((confs', ediff', c'), sidx_shuff', g'). Inr (confs', g', c'))
   \<and> QuantumAnneal_parallel crand RAND_MAX [1] mcsteps 2 1 nspins confs nbs c
       = (if nspins < 0 then Inl NegativeDimension
          else ebind
            (for_each
               (par_mc_step crand RAND_MAX (- 1 * ln (tanh 0.5)) 2 1 nbs (maxnb_of nbs) nspins)
               (xrange mcsteps) (confs, replicate (nat nspins) 0, c))
            (\<lambda>(confs', ediffs', c'). Inr (confs', c')))"
proof -
  have v: "jperp_coeff 2 1 1 = Inr (- 1 * ln (tanh 0.5))"
    by (simp add: jperp_coeff_def jperp_value_def)
  have one_serial:
    "QuantumAnneal perm crand RAND_MAX [1] mcsteps 2 1 nspins confs nbs g c
       = ebind
           (for_each (mc_step perm crand RAND_MAX (- 1 * ln (tanh 0.5)) 2 1 nbs (maxnb_of nbs))
              (xrange mcsteps)
              ((confs, 0, c), fst (perm g (xrange nspins)), snd (perm g (xrange nspins))))
           (\<lambda>((confs', ediff', c'), sidx_shuff', g'). Inr (confs', g', c'))"
    by (simp add: QuantumAnneal_def sched_point_def v Let_def ebind_def
        split: prod.splits sum.splits)
  have one_parallel:
    "QuantumAnneal_parallel crand RAND_MAX [1] mcsteps 2 1 nspins confs nbs c
       = (if nspins < 0 then Inl NegativeDimension
          else ebind
            (for_each
               (par_mc_step crand RAND_MAX (- 1 * ln (tanh 0.5)) 2 1 nbs (maxnb_of nbs) nspins)
               (xrange mcsteps) (confs, replicate (nat nspins) 0, c))
            (\<lambda>(confs', ediffs', c'). Inr (confs', c')))"
    by (simp add: QuantumAnneal_parallel_def par_sched_point_def v Let_def ebind_def
        split: prod.splits sum.splits)
  have f: "jperp_coeff slices temp field
       = (if real_of_int slices * temp = 0 then Inl ZeroDivisionError
          else Inr (- 0.5 * real_of_int slices * temp
                      * ln (tanh (field / (real_of_int slices * temp)))))"
    by (simp add: jperp_coeff_def jperp_value_def)
  show ?thesis
    by (intro conjI v f one_serial one_parallel QuantumAnneal_loops QuantumAnneal_parallel_loops)
qed

subsection \<open>Spins stay \<open>+1\<close> or \<open>-1\<close>\<close>

text \<open>The one write to the configuration, \<^verbatim>\<open>confs[sidx, islice] *= -1\<close>, keeps it so.\<close>

lemma spins_ok_flip:
  assumes "spins_ok confs" and "conf_flip confs i j = Inr confs'"
  shows "spins_ok confs'"
proof -
  from assms(2) have b: "in_bounds confs i j"
    and c: "confs' = confs[nat i := (confs ! nat i)[nat j := confs ! nat i ! nat j * (- 1)]]"
    by (auto simp: conf_flip_def split: if_splits)
  from b have i: "nat i < length confs" and j: "nat j < length (confs ! nat i)"
    by (auto simp: in_bounds_def)
  from assms(1) have all: "\<And>row s. row \<in> set confs \<Longrightarrow> s \<in> set row \<Longrightarrow> s = 1 \<or> s = - 1"
    by (auto simp: spins_ok_def list_all_iff)
  have row: "confs ! nat i \<in> set confs" using i by simp
  have old: "confs ! nat i ! nat j = 1 \<or> confs ! nat i ! nat j = - 1"
    using all[OF row] j by simp
  have new: "list_all (\<lambda>s. s = 1 \<or> s = - 1)
      ((confs ! nat i)[nat j := confs ! nat i ! nat j * (- 1)])"
    unfolding list_all_iff
  proof
    fix s assume "s \<in> set ((confs ! nat i)[nat j := confs ! nat i ! nat j * (- 1)])"
    then have "s \<in> insert (confs ! nat i ! nat j * (- 1)) (set (confs ! nat i))"
      using set_update_subset_insert by fastforce
    then show "s = 1 \<or> s = - 1" using old all[OF row] by auto
  qed
  show ?thesis unfolding c spins_ok_def list_all_iff
  proof
    fix r
    assume "r \<in> set (confs[nat i := (confs ! nat i)[nat j := confs ! nat i ! nat j * (- 1)]])"
    then have "r \<in> insert ((confs ! nat i)[nat j := confs ! nat i ! nat j * (- 1)]) (set confs)"
      using set_update_subset_insert by fastforce
    then show "Ball (set r) (\<lambda>s. s = 1 \<or> s = - 1)"
      using new assms(1) by (auto simp: spins_ok_def list_all_iff)
  qed
qed

lemma spins_ok_reachable:
  assumes "reachable_by_flips confs confs'" and "spins_ok confs"
  shows "spins_ok confs'"
  using assms by (induction rule: reachable_by_flips.induct) (auto dest: spins_ok_flip)

text \<open>
  Whatever the sign flip keeps, the accept-or-reject step, the spin updates, the loops
  and the entry points keep: they write to the configuration in no other way.
\<close>

lemma kept_accept_reject:
  assumes flip: "\<And>a i j a'. P a \<Longrightarrow> conf_flip a i j = Inr a' \<Longrightarrow> P a'"
    and "P confs"
    and "accept_reject crand RAND_MAX temp ediff confs sidx islice c = Inr (confs', c')"
  shows "P confs'"
  using assms(2,3)
  by (auto simp: accept_reject_def ebind_eq_Inr Let_def split: if_splits prod.splits
      dest: flip)

lemma kept_spin_update:
  assumes flip: "\<And>a i j a'. P a \<Longrightarrow> conf_flip a i j = Inr a' \<Longrightarrow> P a'"
    and "P (fst st)"
    and "spin_update crand RAND_MAX jperp slices temp nbs maxnb islice sidx st = Inr st'"
  shows "P (fst st')"
proof -
  obtain confs e c where st: "st = (confs, e, c)" by (cases st) auto
  from assms(3) obtain ediff confs' c' where
    a: "accept_reject crand RAND_MAX temp ediff confs sidx islice c = Inr (confs', c')"
    and st': "fst st' = confs'"
    by (auto simp: st spin_update_def ebind_eq_Inr)
  from assms(2) have "P confs" by (simp add: st)
  from kept_accept_reject[of P, OF flip this a] show ?thesis by (simp add: st')
qed

lemma kept_slice_sweep:
  assumes flip: "\<And>a i j a'. P a \<Longrightarrow> conf_flip a i j = Inr a' \<Longrightarrow> P a'"
    and "P (fst st)"
    and "slice_sweep crand RAND_MAX jperp slices temp nbs maxnb sidx_shuff islice st = Inr st'"
  shows "P (fst st')"
proof -
  from assms(3) obtain t where
    t: "for_each (spin_update crand RAND_MAX jperp slices temp nbs maxnb islice) sidx_shuff st
          = Inr t"
    and st': "fst st' = fst t"
    by (auto simp: slice_sweep_def ebind_eq_Inr)
  have step: "P (fst u')"
    if "P (fst u)"
      and "spin_update crand RAND_MAX jperp slices temp nbs maxnb islice x u = Inr u'"
    for x u u'
    using kept_spin_update[of P, OF flip that] .
  have "P (fst t)"
    by (rule for_each_invariant[OF t, where I = "\<lambda>s. P (fst s)"]) (use assms(2) step in auto)
  then show ?thesis by (simp add: st')
qed

lemma kept_mc_step:
  assumes flip: "\<And>a i j a'. P a \<Longrightarrow> conf_flip a i j = Inr a' \<Longrightarrow> P a'"
    and "P (fst (fst st))"
    and "mc_step perm crand RAND_MAX jperp slices temp nbs maxnb step st = Inr st'"
  shows "P (fst (fst st'))"
proof -
  obtain sw shuff g where st: "st = (sw, shuff, g)" by (cases st) auto
  from assms(3) obtain sw' where
    t: "for_each (slice_sweep crand RAND_MAX jperp slices temp nbs maxnb shuff) (xrange slices) sw
          = Inr sw'"
    and st': "fst st' = sw'"
    by (auto simp: mc_step_def st ebind_eq_Inr Let_def split: prod.splits)
  have step: "P (fst u')"
    if "P (fst u)"
      and "slice_sweep crand RAND_MAX jperp slices temp nbs maxnb shuff x u = Inr u'"
    for x u u'
    using kept_slice_sweep[of P, OF flip that] .
  have "P (fst sw)" using assms(2) by (simp add: st)
  then have "P (fst sw')"
    by (intro for_each_invariant[OF t, where I = "\<lambda>s. P (fst s)"]) (use step in auto)
  then show ?thesis by (simp add: st')
qed

lemma kept_sched_point:
  assumes flip: "\<And>a i j a'. P a \<Longrightarrow> conf_flip a i j = Inr a' \<Longrightarrow> P a'"
    and "P (fst (fst st))"
    and "sched_point perm crand RAND_MAX mcsteps slices temp nbs maxnb field st = Inr st'"
  shows "P (fst (fst st'))"
proof -
  from assms(3) obtain jperp where
    t: "for_each (mc_step perm crand RAND_MAX jperp slices temp nbs maxnb) (xrange mcsteps) st
          = Inr st'"
    by (auto simp: sched_point_def ebind_eq_Inr)
  have step: "P (fst (fst u'))"
    if "P (fst (fst u))"
      and "mc_step perm crand RAND_MAX jperp slices temp nbs maxnb x u = Inr u'"
    for x u u'
    using kept_mc_step[of P, OF flip that] .
  show ?thesis
    by (rule for_each_invariant[OF t, where I = "\<lambda>s. P (fst (fst s))"])
      (use assms(2) step in auto)
qed

lemma kept_QuantumAnneal:
  assumes flip: "\<And>a i j a'. P a \<Longrightarrow> conf_flip a i j = Inr a' \<Longrightarrow> P a'"
    and "P confs"
    and "QuantumAnneal perm crand RAND_MAX sched mcsteps slices temp nspins confs nbs g c
           = Inr (confs', g', c')"
  shows "P confs'"
proof -
  obtain shuff g1 where p: "perm g (xrange nspins) = (shuff, g1)"
    by (cases "perm g (xrange nspins)")
  from assms(3) obtain st' where
    t: "for_each (sched_point perm crand RAND_MAX mcsteps slices temp nbs (maxnb_of nbs)) sched
          ((confs, 0, c), shuff, g1) = Inr st'"
    and c': "confs' = fst (fst st')"
    by (auto simp: QuantumAnneal_def Let_def p ebind_eq_Inr split: prod.splits)
  have step: "P (fst (fst u'))"
    if "P (fst (fst u))"
      and "sched_point perm crand RAND_MAX mcsteps slices temp nbs (maxnb_of nbs) x u = Inr u'"
    for x u u'
    using kept_sched_point[of P, OF flip that] .
  have "P (fst (fst st'))"
    by (rule for_each_invariant[OF t, where I = "\<lambda>s. P (fst (fst s))"])
      (use assms(2) step in auto)
  then show ?thesis by (simp add: c')
qed

lemma kept_par_spin_update:
  assumes flip: "\<And>a i j a'. P a \<Longrightarrow> conf_flip a i j = Inr a' \<Longrightarrow> P a'"
    and "P (fst st)"
    and "par_spin_update crand RAND_MAX jperp slices temp nbs maxnb islice sidx st = Inr st'"
  shows "P (fst st')"
proof -
  obtain confs v c where st: "st = (confs, v, c)" by (cases st) auto
  from assms(3) obtain ediff confs' c' where
    a: "accept_reject crand RAND_MAX temp ediff confs sidx islice c = Inr (confs', c')"
    and st': "fst st' = confs'"
    by (auto simp: st par_spin_update_def ebind_eq_Inr)
  from assms(2) have "P confs" by (simp add: st)
  from kept_accept_reject[of P, OF flip this a] show ?thesis by (simp add: st')
qed

lemma kept_par_slice_sweep:
  assumes flip: "\<And>a i j a'. P a \<Longrightarrow> conf_flip a i j = Inr a' \<Longrightarrow> P a'"
    and "P (fst st)"
    and "par_slice_sweep crand RAND_MAX jperp slices temp nbs maxnb nspins islice st = Inr st'"
  shows "P (fst st')"
proof -
  from assms(3) obtain t where
    t: "for_each (par_spin_update crand RAND_MAX jperp slices temp nbs maxnb islice)
          (xrange nspins) st = Inr t"
    and st': "fst st' = fst t"
    by (auto simp: par_slice_sweep_def ebind_eq_Inr)
  have step: "P (fst u')"
    if "P (fst u)"
      and "par_spin_update crand RAND_MAX jperp slices temp nbs maxnb islice x u = Inr u'"
    for x u u'
    using kept_par_spin_update[of P, OF flip that] .
  have "P (fst t)"
    by (rule for_each_invariant[OF t, where I = "\<lambda>s. P (fst s)"]) (use assms(2) step in auto)
  then show ?thesis by (simp add: st')
qed

lemma kept_par_mc_step:
  assumes flip: "\<And>a i j a'. P a \<Longrightarrow> conf_flip a i j = Inr a' \<Longrightarrow> P a'"
    and "P (fst st)"
    and "par_mc_step crand RAND_MAX jperp slices temp nbs maxnb nspins step st = Inr st'"
  shows "P (fst st')"
proof -
  have step: "P (fst u')"
    if "P (fst u)"
      and "par_slice_sweep crand RAND_MAX jperp slices temp nbs maxnb nspins x u = Inr u'"
    for x u u'
    using kept_par_slice_sweep[of P, OF flip that] .
  show ?thesis
    using assms(3) unfolding par_mc_step_def
    by (rule for_each_invariant[where I = "\<lambda>s. P (fst s)"]) (use assms(2) step in auto)
qed

lemma kept_par_sched_point:
  assumes flip: "\<And>a i j a'. P a \<Longrightarrow> conf_flip a i j = Inr a' \<Longrightarrow> P a'"
    and "P (fst st)"
    and "par_sched_point crand RAND_MAX mcsteps slices temp nbs maxnb nspins field st = Inr st'"
  shows "P (fst st')"
proof -
  from assms(3) obtain jperp where
    t: "for_each (par_mc_step crand RAND_MAX jperp slices temp nbs maxnb nspins)
          (xrange mcsteps) st = Inr st'"
    by (auto simp: par_sched_point_def ebind_eq_Inr)
  have step: "P (fst u')"
    if "P (fst u)"
      and "par_mc_step crand RAND_MAX jperp slices temp nbs maxnb nspins x u = Inr u'"
    for x u u'
    using kept_par_mc_step[of P, OF flip that] .
  show ?thesis
    by (rule for_each_invariant[OF t, where I = "\<lambda>s. P (fst s)"]) (use assms(2) step in auto)
qed

lemma kept_QuantumAnneal_parallel:
  assumes flip: "\<And>a i j a'. P a \<Longrightarrow> conf_flip a i j = Inr a' \<Longrightarrow> P a'"
    and "P confs"
    and "QuantumAnneal_parallel crand RAND_MAX sched mcsteps slices temp nspins confs nbs c
           = Inr (confs', c')"
  shows "P confs'"
proof -
  from assms(3) obtain st' where
    t: "for_each (par_sched_point crand RAND_MAX mcsteps slices temp nbs (maxnb_of nbs) nspins)
          sched (confs, replicate (nat nspins) 0, c) = Inr st'"
    and c': "confs' = fst st'"
    by (auto simp: QuantumAnneal_parallel_def Let_def ebind_eq_Inr split: prod.splits if_splits)
  have step: "P (fst u')"
    if "P (fst u)"
      and "par_sched_point crand RAND_MAX mcsteps slices temp nbs (maxnb_of nbs) nspins x u
             = Inr u'"
    for x u u'
    using kept_par_sched_point[of P, OF flip that] .
  have "P (fst st')"
    by (rule for_each_invariant[OF t, where I = "\<lambda>s. P (fst s)"]) (use assms(2) step in auto)
  then show ?thesis by (simp add: c')
qed

lemma reach_QuantumAnneal:
  assumes "QuantumAnneal perm crand RAND_MAX sched mcsteps slices temp nspins confs nbs g c
           = Inr (confs', g', c')"
  shows "reachable_by_flips confs confs'"
  by (rule kept_QuantumAnneal[where P = "reachable_by_flips confs", OF _ _ assms])
    (auto intro: reachable_by_flips.intros)

lemma reach_QuantumAnneal_parallel:
  assumes "QuantumAnneal_parallel crand RAND_MAX sched mcsteps slices temp nspins confs nbs c
           = Inr (confs', c')"
  shows "reachable_by_flips confs confs'"
  by (rule kept_QuantumAnneal_parallel[where P = "reachable_by_flips confs", OF _ _ assms])
    (auto intro: reachable_by_flips.intros)

subsection \<open>Runs on well-shaped arguments return\<close>

text \<open>
  With at least two slices, a configuration and a neighbour table of the expected
  shapes, and a generator that permutes, no read or write of either engine leaves its
  array: the slices read are the current one, \<open>slices - 1\<close> and 1.
\<close>

lemma conf_shape_in_bounds:
  assumes "conf_shape nspins slices confs" and "0 \<le> i" and "i < nspins" and "0 \<le> j" and "j < slices"
  shows "in_bounds confs i j"
proof -
  from assms have i: "nat i < length confs" by (auto simp: conf_shape_def)
  then have "confs ! nat i \<in> set confs" by simp
  with assms(1) have "int (length (confs ! nat i)) = slices"
    by (simp add: conf_shape_def list_all_iff)
  with assms i show ?thesis by (simp add: in_bounds_def)
qed

lemma conf_shape_flip:
  assumes "conf_shape nspins slices confs" and "conf_flip confs i j = Inr confs'"
  shows "conf_shape nspins slices confs'"
proof -
  from assms(2) have b: "in_bounds confs i j"
    and c: "confs' = confs[nat i := (confs ! nat i)[nat j := confs ! nat i ! nat j * (- 1)]]"
    by (auto simp: conf_flip_def split: if_splits)
  from b have i: "nat i < length confs" by (auto simp: in_bounds_def)
  then have row: "confs ! nat i \<in> set confs" by simp
  have "list_all (\<lambda>row. int (length row) = slices) confs'"
    unfolding c list_all_iff
  proof
    fix r assume "r \<in> set (confs[nat i := (confs ! nat i)[nat j := confs ! nat i ! nat j * (- 1)]])"
    then have "r \<in> insert ((confs ! nat i)[nat j := confs ! nat i ! nat j * (- 1)]) (set confs)"
      using set_update_subset_insert by fastforce
    then show "int (length r) = slices"
      using assms(1) row by (auto simp: conf_shape_def list_all_iff)
  qed
  then show ?thesis using assms(1) by (simp add: conf_shape_def c)
qed

lemma nbs_shape_entry:
  assumes "nbs_shape nspins nbs" and "0 \<le> sidx" and "sidx < nspins"
    and "0 \<le> si" and "si < maxnb_of nbs"
  shows "in_bounds nbs sidx si"
    and "0 \<le> c_int (fst (nbs ! nat sidx ! nat si))"
    and "c_int (fst (nbs ! nat sidx ! nat si)) < nspins"
proof -
  from assms have i: "nat sidx < length nbs" by (auto simp: nbs_shape_def)
  then have row: "nbs ! nat sidx \<in> set nbs" by simp
  with assms(1) have len: "int (length (nbs ! nat sidx)) = maxnb_of nbs"
    by (simp add: nbs_shape_def list_all_iff)
  with assms i show b: "in_bounds nbs sidx si" by (simp add: in_bounds_def)
  from len assms have "nat si < length (nbs ! nat sidx)" by simp
  then have "nbs ! nat sidx ! nat si \<in> set (nbs ! nat sidx)" by simp
  with assms(1) row show "0 \<le> c_int (fst (nbs ! nat sidx ! nat si))"
    and "c_int (fst (nbs ! nat sidx ! nat si)) < nspins"
    by (auto simp: nbs_shape_def list_all_iff)
qed

lemma nb_term_returns:
  assumes "conf_shape nspins slices confs" and "nbs_shape nspins nbs"
    and "0 \<le> sidx" and "sidx < nspins" and "0 \<le> islice" and "islice < slices"
    and "0 \<le> si" and "si < maxnb_of nbs"
  shows "nb_reads_in_bounds confs nbs sidx islice si"
  unfolding nb_reads_in_bounds_def
  using nbs_shape_entry[OF assms(2,3,4,7,8)] assms
  by (simp add: conf_shape_in_bounds)

lemma nb_reads_all:
  assumes "conf_shape nspins slices confs" and "nbs_shape nspins nbs"
    and "0 \<le> sidx" and "sidx < nspins" and "0 \<le> islice" and "islice < slices"
  shows "list_all (nb_reads_in_bounds confs nbs sidx islice) (xrange (maxnb_of nbs))"
  unfolding list_all_iff using nb_term_returns[OF assms] by auto

lemma trotter_terms_returns:
  assumes "conf_shape nspins slices confs" and "2 \<le> slices"
    and "0 \<le> sidx" and "sidx < nspins" and "0 \<le> islice" and "islice < slices"
  shows "\<exists>t. trotter_terms jperp slices confs sidx islice = Inr t"
proof -
  have "in_bounds confs sidx islice" "in_bounds confs sidx (slices - 1)" "in_bounds confs sidx 1"
    using assms by (auto intro: conf_shape_in_bounds)
  then show ?thesis
    by (simp add: trotter_terms_def trotter_nbrs_def arr_get_def)
qed

lemma accept_reject_returns:
  assumes "conf_shape nspins slices confs"
    and "0 \<le> sidx" and "sidx < nspins" and "0 \<le> islice" and "islice < slices"
    and tz: "temp \<noteq> 0"
  shows "\<exists>confs' c'. accept_reject crand RAND_MAX temp ediff confs sidx islice c = Inr (confs', c')
           \<and> conf_shape nspins slices confs'"
proof -
  have b: "in_bounds confs sidx islice" using assms by (auto intro: conf_shape_in_bounds)
  then obtain confs1 where f: "conf_flip confs sidx islice = Inr confs1"
    by (simp add: conf_flip_def)
  have "conf_shape nspins slices confs1" by (rule conf_shape_flip[OF assms(1) f])
  then show ?thesis
    using f assms(1) tz by (auto simp: accept_reject_def Let_def split: prod.splits)
qed


lemma spin_update_returns:
  assumes "conf_shape nspins slices (fst st)" and "nbs_shape nspins nbs" and "2 \<le> slices"
    and "0 \<le> sidx" and "sidx < nspins" and "0 \<le> islice" and "islice < slices"
    and tz: "temp \<noteq> 0"
  shows "\<exists>st'. spin_update crand RAND_MAX jperp slices temp nbs (maxnb_of nbs) islice sidx st
                  = Inr st' \<and> conf_shape nspins slices (fst st')"
proof -
  obtain confs e c where st: "st = (confs, e, c)" by (cases st) auto
  have sh: "conf_shape nspins slices confs" using assms(1) by (simp add: st)
  have nb: "\<exists>e1. nb_loop confs nbs (maxnb_of nbs) sidx islice e = Inr e1"
    using nb_loop_value[OF nb_reads_all[OF sh assms(2,4,5,6,7)]] by simp
  from trotter_terms_returns[OF sh assms(3,4,5,6,7)]
  obtain t where t: "trotter_terms jperp slices confs sidx islice = Inr t" by auto
  from nb obtain e1 where e1: "nb_loop confs nbs (maxnb_of nbs) sidx islice e = Inr e1" by auto
  from accept_reject_returns[OF sh assms(4,5,6,7) tz, where crand = crand
      and RAND_MAX = RAND_MAX and ediff = "e1 + t" and c = c]
  obtain confs' c' where
    a: "accept_reject crand RAND_MAX temp (e1 + t) confs sidx islice c = Inr (confs', c')"
    and sh': "conf_shape nspins slices confs'" by blast
  show ?thesis
    using e1 t a sh' by (simp add: st spin_update_def ediff_accum_def)
qed

lemma slice_sweep_returns:
  assumes "conf_shape nspins slices (fst st)" and "nbs_shape nspins nbs" and "2 \<le> slices"
    and "set sidx_shuff \<subseteq> {0..<nspins}" and "0 \<le> islice" and "islice < slices"
    and tz: "temp \<noteq> 0"
  shows "\<exists>st'. slice_sweep crand RAND_MAX jperp slices temp nbs (maxnb_of nbs) sidx_shuff islice st
                  = Inr st' \<and> conf_shape nspins slices (fst st')"
proof -
  have step: "\<exists>t'. spin_update crand RAND_MAX jperp slices temp nbs (maxnb_of nbs) islice x t
                       = Inr t' \<and> conf_shape nspins slices (fst t')"
    if "x \<in> set sidx_shuff" and "conf_shape nspins slices (fst t)" for x t
  proof -
    from that(1) assms(4) have "0 \<le> x" "x < nspins" by auto
    then show ?thesis
      using spin_update_returns[OF that(2) assms(2,3) _ _ assms(5,6) tz] by blast
  qed
  have "\<exists>t. for_each (spin_update crand RAND_MAX jperp slices temp nbs (maxnb_of nbs) islice)
               sidx_shuff st = Inr t \<and> conf_shape nspins slices (fst t)"
    by (rule for_each_returns[where I = "\<lambda>s. conf_shape nspins slices (fst s)",
          OF assms(1) step])
  then show ?thesis by (auto simp: slice_sweep_def)
qed

lemma mc_step_returns:
  assumes "conf_shape nspins slices (fst (fst st))" and "nbs_shape nspins nbs" and "2 \<le> slices"
    and "set (fst (snd st)) \<subseteq> {0..<nspins}" and "perm_ok perm"
    and tz: "temp \<noteq> 0"
  shows "\<exists>st'. mc_step perm crand RAND_MAX jperp slices temp nbs (maxnb_of nbs) step st = Inr st'
           \<and> conf_shape nspins slices (fst (fst st')) \<and> set (fst (snd st')) \<subseteq> {0..<nspins}"
proof -
  obtain sw shuff g where st: "st = (sw, shuff, g)" by (cases st) auto
  have sh: "set shuff \<subseteq> {0..<nspins}" using assms(4) by (simp add: st)
  have sw: "conf_shape nspins slices (fst sw)" using assms(1) by (simp add: st)
  have step: "\<exists>t'. slice_sweep crand RAND_MAX jperp slices temp nbs (maxnb_of nbs) shuff x t
                       = Inr t' \<and> conf_shape nspins slices (fst t')"
    if "x \<in> set (xrange slices)" and "conf_shape nspins slices (fst t)" for x t
  proof -
    from that(1) have "0 \<le> x" "x < slices" by auto
    then show ?thesis
      using slice_sweep_returns[OF that(2) assms(2,3) sh _ _ tz] by blast
  qed
  have "\<exists>sw'. for_each (slice_sweep crand RAND_MAX jperp slices temp nbs (maxnb_of nbs) shuff)
                 (xrange slices) sw = Inr sw' \<and> conf_shape nspins slices (fst sw')"
    by (rule for_each_returns[where I = "\<lambda>s. conf_shape nspins slices (fst s)", OF sw step])
  then obtain sw' where
    sw': "for_each (slice_sweep crand RAND_MAX jperp slices temp nbs (maxnb_of nbs) shuff)
            (xrange slices) sw = Inr sw'"
    and c: "conf_shape nspins slices (fst sw')" by blast
  have "set (fst (perm g shuff)) \<subseteq> {0..<nspins}"
    using assms(5) sh unfolding perm_ok_def by blast
  then show ?thesis
    using sw' c by (simp add: mc_step_def st Let_def split: prod.splits)
qed

lemma sched_point_returns:
  assumes "conf_shape nspins slices (fst (fst st))" and "nbs_shape nspins nbs" and "2 \<le> slices"
    and "set (fst (snd st)) \<subseteq> {0..<nspins}" and "perm_ok perm"
    and tz: "temp \<noteq> 0"
  shows "\<exists>st'. sched_point perm crand RAND_MAX mcsteps slices temp nbs (maxnb_of nbs) field st
                  = Inr st'
           \<and> conf_shape nspins slices (fst (fst st')) \<and> set (fst (snd st')) \<subseteq> {0..<nspins}"
proof -
  have step: "\<exists>t'. mc_step perm crand RAND_MAX
                (jperp_value slices temp field) slices temp nbs (maxnb_of nbs) x t = Inr t'
           \<and> conf_shape nspins slices (fst (fst t')) \<and> set (fst (snd t')) \<subseteq> {0..<nspins}"
    if "x \<in> set (xrange mcsteps)"
      and "conf_shape nspins slices (fst (fst t)) \<and> set (fst (snd t)) \<subseteq> {0..<nspins}" for x t
    using mc_step_returns[OF _ assms(2,3) _ assms(5) tz] that(2) by blast
  have init: "conf_shape nspins slices (fst (fst st)) \<and> set (fst (snd st)) \<subseteq> {0..<nspins}"
    using assms(1,4) by simp
  have j: "jperp_coeff slices temp field = Inr (jperp_value slices temp field)"
    using assms(3) tz by (simp add: jperp_coeff_def)
  show ?thesis
    unfolding sched_point_def j ebind_Inr
    by (rule for_each_returns[where
          I = "\<lambda>s. conf_shape nspins slices (fst (fst s)) \<and> set (fst (snd s)) \<subseteq> {0..<nspins}",
          OF init step])
qed

lemma QuantumAnneal_returns:
  assumes "conf_shape nspins slices confs" and "nbs_shape nspins nbs" and "2 \<le> slices"
    and "perm_ok perm"
    and tz: "temp \<noteq> 0"
  shows "\<exists>confs' g' c'.
           QuantumAnneal perm crand RAND_MAX sched mcsteps slices temp nspins confs nbs g c
             = Inr (confs', g', c')"
proof -
  obtain shuff g1 where p: "perm g (xrange nspins) = (shuff, g1)"
    by (cases "perm g (xrange nspins)")
  have "set (fst (perm g (xrange nspins))) \<subseteq> set (xrange nspins)"
    using assms(4) unfolding perm_ok_def by blast
  then have sh: "set shuff \<subseteq> {0..<nspins}" by (simp add: p)
  have step: "\<exists>t'. sched_point perm crand RAND_MAX mcsteps slices temp nbs (maxnb_of nbs) x t
                       = Inr t'
           \<and> conf_shape nspins slices (fst (fst t')) \<and> set (fst (snd t')) \<subseteq> {0..<nspins}"
    if "x \<in> set sched"
      and "conf_shape nspins slices (fst (fst t)) \<and> set (fst (snd t)) \<subseteq> {0..<nspins}" for x t
    using sched_point_returns[OF _ assms(2,3) _ assms(4) tz] that(2) by blast
  have init: "conf_shape nspins slices (fst (fst ((confs, 0 :: real, c), shuff, g1)))
          \<and> set (fst (snd ((confs, 0 :: real, c), shuff, g1))) \<subseteq> {0..<nspins}"
    using assms(1) sh by simp
  have "\<exists>st'. for_each (sched_point perm crand RAND_MAX mcsteps slices temp nbs (maxnb_of nbs))
                 sched ((confs, 0, c), shuff, g1) = Inr st'
          \<and> conf_shape nspins slices (fst (fst st')) \<and> set (fst (snd st')) \<subseteq> {0..<nspins}"
    by (rule for_each_returns[where
          I = "\<lambda>s. conf_shape nspins slices (fst (fst s)) \<and> set (fst (snd s)) \<subseteq> {0..<nspins}",
          OF init step])
  then obtain st' where
    "for_each (sched_point perm crand RAND_MAX mcsteps slices temp nbs (maxnb_of nbs))
       sched ((confs, 0, c), shuff, g1) = Inr st'" by blast
  then show ?thesis
    by (cases st') (auto simp: QuantumAnneal_def p Let_def split: prod.splits)
qed


lemma par_spin_update_returns:
  assumes "conf_shape nspins slices (fst st)" and "int (length (fst (snd st))) = nspins"
    and "nbs_shape nspins nbs" and "2 \<le> slices"
    and "0 \<le> sidx" and "sidx < nspins" and "0 \<le> islice" and "islice < slices"
    and tz: "temp \<noteq> 0"
  shows "\<exists>st'. par_spin_update crand RAND_MAX jperp slices temp nbs (maxnb_of nbs) islice sidx st
                  = Inr st'
           \<and> conf_shape nspins slices (fst st') \<and> int (length (fst (snd st'))) = nspins"
proof -
  obtain confs v c where st: "st = (confs, v, c)" by (cases st) auto
  have sh: "conf_shape nspins slices confs" and len: "int (length v) = nspins"
    using assms(1,2) by (simp_all add: st)
  have i: "sidx < int (length v)" using len assms(6) by simp
  from par_nb_loop_value[OF nb_reads_all[OF sh assms(3,5,6,7,8)] assms(5) i]
  obtain v1 where v1: "par_nb_loop confs nbs (maxnb_of nbs) sidx islice v = Inr v1"
    and len1: "length v1 = length v" by auto
  from trotter_terms_returns[OF sh assms(4,5,6,7,8)]
  obtain t where t: "trotter_terms jperp slices confs sidx islice = Inr t" by auto
  have i1: "sidx < int (length v1)" using i len1 by simp
  obtain v2 where v2: "vec_add v1 sidx t = Inr v2" and len2: "length v2 = length v"
    using vec_add_Inr[OF assms(5) i1] len1 by simp
  have i2: "sidx < int (length v2)" using i len2 by simp
  have g: "vec_get v2 sidx = Inr (v2 ! nat sidx)" using assms(5) i2 by (simp add: vec_get_def)
  from accept_reject_returns[OF sh assms(5,6,7,8) tz, where crand = crand
      and RAND_MAX = RAND_MAX and ediff = "v2 ! nat sidx" and c = c]
  obtain confs' c' where
    a: "accept_reject crand RAND_MAX temp (v2 ! nat sidx) confs sidx islice c = Inr (confs', c')"
    and sh': "conf_shape nspins slices confs'" by blast
  show ?thesis
    using v1 t v2 g a sh' len2 len by (simp add: st par_spin_update_def)
qed

lemma par_slice_sweep_returns:
  assumes "conf_shape nspins slices (fst st) \<and> int (length (fst (snd st))) = nspins"
    and "nbs_shape nspins nbs" and "2 \<le> slices" and "0 \<le> islice" and "islice < slices"
    and tz: "temp \<noteq> 0"
  shows "\<exists>st'. par_slice_sweep crand RAND_MAX jperp slices temp nbs (maxnb_of nbs) nspins islice st
                  = Inr st'
           \<and> conf_shape nspins slices (fst st') \<and> int (length (fst (snd st'))) = nspins"
proof -
  have step: "\<exists>t'. par_spin_update crand RAND_MAX jperp slices temp nbs (maxnb_of nbs) islice x t
                       = Inr t'
                \<and> conf_shape nspins slices (fst t') \<and> int (length (fst (snd t'))) = nspins"
    if "x \<in> set (xrange nspins)"
      and "conf_shape nspins slices (fst t) \<and> int (length (fst (snd t))) = nspins" for x t
  proof -
    from that(1) have "0 \<le> x" "x < nspins" by auto
    then show ?thesis
      using par_spin_update_returns[OF _ _ assms(2,3) _ _ assms(4,5) tz] that(2) by blast
  qed
  have "\<exists>t. for_each (par_spin_update crand RAND_MAX jperp slices temp nbs (maxnb_of nbs) islice)
               (xrange nspins) st = Inr t
          \<and> conf_shape nspins slices (fst t) \<and> int (length (fst (snd t))) = nspins"
    by (rule for_each_returns[where
          I = "\<lambda>s. conf_shape nspins slices (fst s) \<and> int (length (fst (snd s))) = nspins",
          OF assms(1) step])
  then show ?thesis by (auto simp: par_slice_sweep_def)
qed

lemma par_mc_step_returns:
  assumes "conf_shape nspins slices (fst st) \<and> int (length (fst (snd st))) = nspins"
    and "nbs_shape nspins nbs" and "2 \<le> slices"
    and tz: "temp \<noteq> 0"
  shows "\<exists>st'. par_mc_step crand RAND_MAX jperp slices temp nbs (maxnb_of nbs) nspins step st
                  = Inr st'
           \<and> conf_shape nspins slices (fst st') \<and> int (length (fst (snd st'))) = nspins"
proof -
  have step: "\<exists>t'. par_slice_sweep crand RAND_MAX jperp slices temp nbs (maxnb_of nbs) nspins x t
                       = Inr t'
                \<and> conf_shape nspins slices (fst t') \<and> int (length (fst (snd t'))) = nspins"
    if "x \<in> set (xrange slices)"
      and "conf_shape nspins slices (fst t) \<and> int (length (fst (snd t))) = nspins" for x t
  proof -
    from that(1) have "0 \<le> x" "x < slices" by auto
    then show ?thesis
      using par_slice_sweep_returns[OF that(2) assms(2,3) _ _ tz] by blast
  qed
  show ?thesis
    unfolding par_mc_step_def
    by (rule for_each_returns[where
          I = "\<lambda>s. conf_shape nspins slices (fst s) \<and> int (length (fst (snd s))) = nspins",
          OF assms(1) step])
qed

lemma par_sched_point_returns:
  assumes "conf_shape nspins slices (fst st) \<and> int (length (fst (snd st))) = nspins"
    and "nbs_shape nspins nbs" and "2 \<le> slices"
    and tz: "temp \<noteq> 0"
  shows "\<exists>st'. par_sched_point crand RAND_MAX mcsteps slices temp nbs (maxnb_of nbs) nspins field st
                  = Inr st'
           \<and> conf_shape nspins slices (fst st') \<and> int (length (fst (snd st'))) = nspins"
proof -
  have step: "\<exists>t'. par_mc_step crand RAND_MAX (jperp_value slices temp field) slices temp nbs
                      (maxnb_of nbs) nspins x t = Inr t'
                \<and> conf_shape nspins slices (fst t') \<and> int (length (fst (snd t'))) = nspins"
    if "x \<in> set (xrange mcsteps)"
      and "conf_shape nspins slices (fst t) \<and> int (length (fst (snd t))) = nspins" for x t
    using par_mc_step_returns[OF that(2) assms(2,3) tz] by blast
  have j: "jperp_coeff slices temp field = Inr (jperp_value slices temp field)"
    using assms(3) tz by (simp add: jperp_coeff_def)
  show ?thesis
    unfolding par_sched_point_def j ebind_Inr
    by (rule for_each_returns[where
          I = "\<lambda>s. conf_shape nspins slices (fst s) \<and> int (length (fst (snd s))) = nspins",
          OF assms(1) step])
qed

lemma QuantumAnneal_parallel_returns:
  assumes "conf_shape nspins slices confs" and "nbs_shape nspins nbs" and "2 \<le> slices"
    and tz: "temp \<noteq> 0"
  shows "\<exists>confs' c'.
           QuantumAnneal_parallel crand RAND_MAX sched mcsteps slices temp nspins confs nbs c
             = Inr (confs', c')"
proof -
  have n: "0 \<le> nspins" using assms(1) by (auto simp: conf_shape_def)
  have step: "\<exists>t'. par_sched_point crand RAND_MAX mcsteps slices temp nbs (maxnb_of nbs) nspins x t
                       = Inr t'
                \<and> conf_shape nspins slices (fst t') \<and> int (length (fst (snd t'))) = nspins"
    if "x \<in> set sched"
      and "conf_shape nspins slices (fst t) \<and> int (length (fst (snd t))) = nspins" for x t
    using par_sched_point_returns[OF that(2) assms(2,3) tz] by blast
  have init: "conf_shape nspins slices (fst (confs, replicate (nat nspins) (0 :: real), c))
      \<and> int (length (fst (snd (confs, replicate (nat nspins) (0 :: real), c)))) = nspins"
    using assms(1) n by simp
  have "\<exists>st'. for_each
                 (par_sched_point crand RAND_MAX mcsteps slices temp nbs (maxnb_of nbs) nspins)
                 sched (confs, replicate (nat nspins) 0, c) = Inr st'
          \<and> conf_shape nspins slices (fst st') \<and> int (length (fst (snd st'))) = nspins"
    by (rule for_each_returns[where
          I = "\<lambda>s. conf_shape nspins slices (fst s) \<and> int (length (fst (snd s))) = nspins",
          OF init step])
  then obtain st' where
    "for_each (par_sched_point crand RAND_MAX mcsteps slices temp nbs (maxnb_of nbs) nspins)
       sched (confs, replicate (nat nspins) 0, c) = Inr st'" by blast
  then show ?thesis
    using n by (cases st') (auto simp: QuantumAnneal_parallel_def Let_def split: prod.splits)
qed

subsection \<open>The invariant of the configuration\<close>

text \<open>
  Claim C6. From a configuration whose entries are all \<open>+1\<close> or \<open>-1\<close>, every
  configuration that sign flips of single entries can produce has all entries \<open>+1\<close> or
  \<open>-1\<close>; the configuration after one spin update of either engine, and the
  configuration either entry point returns, are produced from the initial one by such
  flips and by nothing else, and so have all entries \<open>+1\<close> or \<open>-1\<close>. A run that reads
  out of bounds or divides by zero has no result to speak of; on arguments of the
  expected shapes with at least two slices and a temperature other than 0 both entry
  points do return a configuration, and it has all entries \<open>+1\<close> or \<open>-1\<close>.
\<close>

theorem spins_stay_plus_minus_one:
  assumes "spins_ok confs"
  shows "(reachable_by_flips confs confs1 \<longrightarrow> spins_ok confs1)
       \<and> (case spin_update crand RAND_MAX jperp slices temp nbs maxnb islice sidx (confs, e, c)
            of Inl err \<Rightarrow> True
             | Inr (confs', e', c') \<Rightarrow> reachable_by_flips confs confs' \<and> spins_ok confs')
       \<and> (case par_spin_update crand RAND_MAX jperp slices temp nbs maxnb islice sidx (confs, v, c)
            of Inl err \<Rightarrow> True
             | Inr (confs', v', c') \<Rightarrow> reachable_by_flips confs confs' \<and> spins_ok confs')
       \<and> (case QuantumAnneal perm crand RAND_MAX sched mcsteps slices temp nspins confs nbs g c
            of Inl err \<Rightarrow> True
             | Inr (confs', g', c') \<Rightarrow> reachable_by_flips confs confs' \<and> spins_ok confs')
       \<and> (case QuantumAnneal_parallel crand RAND_MAX sched mcsteps slices temp nspins confs nbs c
            of Inl err \<Rightarrow> True
             | Inr (confs', c') \<Rightarrow> reachable_by_flips confs confs' \<and> spins_ok confs')
       \<and> (conf_shape nspins slices confs \<and> nbs_shape nspins nbs \<and> 2 \<le> slices \<and> temp \<noteq> 0
            \<and> perm_ok perm \<longrightarrow>
            (\<exists>confs' g' c'.
               QuantumAnneal perm crand RAND_MAX sched mcsteps slices temp nspins confs nbs g c
                 = Inr (confs', g', c') \<and> spins_ok confs')
            \<and> (\<exists>confs' c'.
               QuantumAnneal_parallel crand RAND_MAX sched mcsteps slices temp nspins confs nbs c
                 = Inr (confs', c') \<and> spins_ok confs'))"
proof -
  have ok: "spins_ok a" if "reachable_by_flips confs a" for a
    using spins_ok_reachable[OF that assms] .
  have flip: "reachable_by_flips confs a'"
    if "reachable_by_flips confs a" and "conf_flip a i j = Inr a'" for a i j a'
    using that by (rule reachable_by_flips.flip)
  have start: "reachable_by_flips confs confs" by (rule reachable_by_flips.start)
  have serial_update: "reachable_by_flips confs (fst st')"
    if "spin_update crand RAND_MAX jperp slices temp nbs maxnb islice sidx (confs, e, c) = Inr st'"
    for st'
    using kept_spin_update[of "reachable_by_flips confs", OF flip _ that] start by simp
  have parallel_update: "reachable_by_flips confs (fst st')"
    if "par_spin_update crand RAND_MAX jperp slices temp nbs maxnb islice sidx (confs, v, c)
          = Inr st'"
    for st'
    using kept_par_spin_update[of "reachable_by_flips confs", OF flip _ that] start by simp
  have serial: "reachable_by_flips confs a"
    if "QuantumAnneal perm crand RAND_MAX sched mcsteps slices temp nspins confs nbs g c
          = Inr (a, g', c')"
    for a g' c'
    using kept_QuantumAnneal[of "reachable_by_flips confs", OF flip start that] .
  have parallel: "reachable_by_flips confs a"
    if "QuantumAnneal_parallel crand RAND_MAX sched mcsteps slices temp nspins confs nbs c
          = Inr (a, c')"
    for a c'
    using kept_QuantumAnneal_parallel[of "reachable_by_flips confs", OF flip start that] .
  have partial:
    "(case spin_update crand RAND_MAX jperp slices temp nbs maxnb islice sidx (confs, e, c)
        of Inl err \<Rightarrow> True
         | Inr (confs', e', c') \<Rightarrow> reachable_by_flips confs confs' \<and> spins_ok confs')
     \<and> (case par_spin_update crand RAND_MAX jperp slices temp nbs maxnb islice sidx (confs, v, c)
        of Inl err \<Rightarrow> True
         | Inr (confs', v', c') \<Rightarrow> reachable_by_flips confs confs' \<and> spins_ok confs')
     \<and> (case QuantumAnneal perm crand RAND_MAX sched mcsteps slices temp nspins confs nbs g c
        of Inl err \<Rightarrow> True
         | Inr (confs', g', c') \<Rightarrow> reachable_by_flips confs confs' \<and> spins_ok confs')
     \<and> (case QuantumAnneal_parallel crand RAND_MAX sched mcsteps slices temp nspins confs nbs c
        of Inl err \<Rightarrow> True
         | Inr (confs', c') \<Rightarrow> reachable_by_flips confs confs' \<and> spins_ok confs')"
    using serial_update parallel_update serial parallel ok
    by (auto split: sum.splits)
  have total: "(\<exists>confs' g' c'.
               QuantumAnneal perm crand RAND_MAX sched mcsteps slices temp nspins confs nbs g c
                 = Inr (confs', g', c') \<and> spins_ok confs')
            \<and> (\<exists>confs' c'.
               QuantumAnneal_parallel crand RAND_MAX sched mcsteps slices temp nspins confs nbs c
                 = Inr (confs', c') \<and> spins_ok confs')"
    if wf: "conf_shape nspins slices confs" "nbs_shape nspins nbs" "2 \<le> slices" "perm_ok perm"
      and tz: "temp \<noteq> 0"
  proof -
    from QuantumAnneal_returns[OF wf tz, of crand RAND_MAX sched mcsteps g c]
    obtain confs1 g1 c1 where
      r1: "QuantumAnneal perm crand RAND_MAX sched mcsteps slices temp nspins confs nbs g c
             = Inr (confs1, g1, c1)" by blast
    from QuantumAnneal_parallel_returns[OF wf(1,2,3) tz, of crand RAND_MAX sched mcsteps c]
    obtain confs2 c2 where
      r2: "QuantumAnneal_parallel crand RAND_MAX sched mcsteps slices temp nspins confs nbs c
             = Inr (confs2, c2)" by blast
    show ?thesis
      using r1 r2 ok[OF serial[OF r1]] ok[OF parallel[OF r2]] by simp
  qed
  from ok[of confs1] partial total show ?thesis by simp
qed

text \<open>
  One spin in two slices, both \<open>+1\<close>, schedule \<open>[1]\<close>, one step, \<^verbatim>\<open>rand()\<close> returning 0:
  the first update gives \<open>[-1, 1]\<close>, both entry points return \<open>[-1, -1]\<close>.
\<close>

theorem spins_stay_plus_minus_one_witness:
  "spins_ok [[1, 1]]
   \<and> conf_shape 1 2 [[1, 1]] \<and> nbs_shape 1 [[]] \<and> (2 :: int) \<le> 2 \<and> (1 :: real) \<noteq> 0
   \<and> perm_ok keep_order
   \<and> spin_update (rand_const 0) 32767 1 2 1 [[]] 0 0 0 ([[1, 1]], 0, ()) = Inr ([[- 1, 1]], - 4, ())
   \<and> reachable_by_flips [[1, 1]] [[- 1, 1]]
   \<and> spins_ok [[- 1, 1]]
   \<and> QuantumAnneal keep_order (rand_const 0) 32767 [1] 1 2 1 1 [[1, 1]] [[]] () ()
       = Inr ([[- 1, - 1]], (), ())
   \<and> QuantumAnneal_parallel (rand_const 0) 32767 [1] 1 2 1 1 [[1, 1]] [[]] ()
       = Inr ([[- 1, - 1]], ())
   \<and> reachable_by_flips [[1, 1]] [[- 1, - 1]]
   \<and> spins_ok [[- 1, - 1]]"
proof -
  have h: "spins_ok [[1, 1]]" by (simp add: spins_ok_def)
  have wf: "conf_shape 1 2 [[1, 1]] \<and> nbs_shape 1 [[]] \<and> (2 :: int) \<le> 2 \<and> (1 :: real) \<noteq> 0
      \<and> perm_ok keep_order"
    by (simp add: conf_shape_def nbs_shape_def perm_ok_def maxnb_of_def)
  have u: "spin_update (rand_const 0) 32767 1 2 1 [[]] 0 0 0 ([[1, 1]], 0, ())
      = Inr ([[- 1, 1]], - 4, ())"
    by (simp add: engine_defs)
  have r: "QuantumAnneal keep_order (rand_const 0) 32767 [1] 1 2 1 1 [[1, 1]] [[]] () ()
      = Inr ([[- 1, - 1]], (), ())"
    using jperp_pos by (simp add: engine_defs)
  have p: "QuantumAnneal_parallel (rand_const 0) 32767 [1] 1 2 1 1 [[1, 1]] [[]] ()
      = Inr ([[- 1, - 1]], ())"
    using jperp_pos by (simp add: engine_defs)
  from spins_stay_plus_minus_one[OF h, where crand = "rand_const 0" and RAND_MAX = 32767
      and jperp = 1 and slices = 2 and temp = 1 and nbs = "[[]]" and maxnb = 0 and islice = 0
      and sidx = 0 and e = 0 and c = "()" and v = "[0]" and perm = keep_order
      and sched = "[1]" and mcsteps = 1 and nspins = 1 and g = "()" and ?confs1.0 = "[[1, 1]]"]
  show ?thesis using h wf u r p by simp
qed

subsection \<open>Randomness\<close>

text \<open>
  A spin update calls \<^verbatim>\<open>rand()\<close> at most once. Two runs whose \<^verbatim>\<open>rand()\<close> deliver the
  same values at as many calls as there are spin updates ahead end in the same error or
  in the same configuration and generator state. The generator is asked for a new order
  once per step, whatever \<^verbatim>\<open>rand()\<close> returns.
\<close>

lemma rand_agree_less:
  "rand_agree (k + j) crand1 c crand2 d \<Longrightarrow> rand_agree k crand1 c crand2 d"
  by (induction k arbitrary: c d) auto

lemma spin_update_agree:
  assumes "sweep_agree crand1 crand2 (k + 1) s t"
  shows "rel_sum (=) (sweep_agree crand1 crand2 k)
           (spin_update crand1 RAND_MAX jperp slices temp nbs maxnb islice sidx s)
           (spin_update crand2 RAND_MAX jperp slices temp nbs maxnb islice sidx t)"
proof -
  obtain confs e c where s: "s = (confs, e, c)" by (cases s) auto
  obtain d where t: "t = (confs, e, d)" and R: "rand_agree (Suc k) crand1 c crand2 d"
    using assms by (cases t) (auto simp: sweep_agree_def s)
  from R have k: "fst (crand1 c) = fst (crand2 d)"
    and R': "rand_agree k crand1 (snd (crand1 c)) crand2 (snd (crand2 d))"
    by simp_all
  have R0: "rand_agree k crand1 c crand2 d"
    using R rand_agree_less[of k 1 crand1 c crand2 d] by simp
  show ?thesis
  proof (cases "ediff_accum jperp slices nbs maxnb confs islice sidx e")
    case (Inl err)
    then show ?thesis by (simp add: s t spin_update_def)
  next
    case (Inr ediff)
    show ?thesis
      using Inr R0 R' k
      by (cases "conf_flip confs sidx islice")
        (auto simp: s t spin_update_def accept_reject_def sweep_agree_def Let_def
          split: prod.splits)
  qed
qed

lemma slice_sweep_agree:
  assumes "sweep_agree crand1 crand2 (k + length shuff) s t"
  shows "rel_sum (=) (sweep_agree crand1 crand2 k)
           (slice_sweep crand1 RAND_MAX jperp slices temp nbs maxnb shuff islice s)
           (slice_sweep crand2 RAND_MAX jperp slices temp nbs maxnb shuff islice t)"
proof -
  have "rel_sum (=) (sweep_agree crand1 crand2 k)
          (for_each (spin_update crand1 RAND_MAX jperp slices temp nbs maxnb islice) shuff s)
          (for_each (spin_update crand2 RAND_MAX jperp slices temp nbs maxnb islice) shuff t)"
    by (rule for_each_budget[where w = 1 and Rel = "sweep_agree crand1 crand2"])
      (use assms in \<open>auto intro: spin_update_agree\<close>)
  then show ?thesis
    by (auto simp: slice_sweep_def sweep_agree_def elim!: rel_sum.cases)
qed

lemma mc_step_agree:
  assumes "step_agree crand1 crand2 n (k + nat slices * n) s t" and "perm_keeps_length perm"
  shows "rel_sum (=) (step_agree crand1 crand2 n k)
           (mc_step perm crand1 RAND_MAX jperp slices temp nbs maxnb step s)
           (mc_step perm crand2 RAND_MAX jperp slices temp nbs maxnb step t)"
proof -
  obtain sw shuff g where s: "s = (sw, shuff, g)" by (cases s) auto
  obtain tw where t: "t = (tw, shuff, g)"
    and r: "sweep_agree crand1 crand2 (k + nat slices * n) sw tw"
    and n: "length shuff = n"
    using assms(1) by (cases t) (auto simp: step_agree_def s)
  have r': "sweep_agree crand1 crand2 (k + n * length (xrange slices)) sw tw"
    using r by (simp add: mult.commute length_xrange)
  have "rel_sum (=) (sweep_agree crand1 crand2 k)
          (for_each (slice_sweep crand1 RAND_MAX jperp slices temp nbs maxnb shuff)
             (xrange slices) sw)
          (for_each (slice_sweep crand2 RAND_MAX jperp slices temp nbs maxnb shuff)
             (xrange slices) tw)"
    by (rule for_each_budget[where w = n and Rel = "sweep_agree crand1 crand2", OF _ r'])
      (use n in \<open>auto intro: slice_sweep_agree\<close>)
  moreover have "length (fst (perm g shuff)) = n"
    using assms(2) n by (simp add: perm_keeps_length_def)
  ultimately show ?thesis
    by (auto simp: mc_step_def s t step_agree_def Let_def split: prod.splits
        elim!: rel_sum.cases)
qed

lemma sched_point_agree:
  assumes "step_agree crand1 crand2 n (k + nat mcsteps * (nat slices * n)) s t"
    and "perm_keeps_length perm"
  shows "rel_sum (=) (step_agree crand1 crand2 n k)
           (sched_point perm crand1 RAND_MAX mcsteps slices temp nbs maxnb field s)
           (sched_point perm crand2 RAND_MAX mcsteps slices temp nbs maxnb field t)"
proof (cases "jperp_coeff slices temp field")
  case (Inl e)
  then show ?thesis by (simp add: sched_point_def)
next
  case (Inr jperp)
  have r: "step_agree crand1 crand2 n (k + nat slices * n * length (xrange mcsteps)) s t"
    using assms(1) by (simp add: mult.commute length_xrange)
  have "rel_sum (=) (step_agree crand1 crand2 n k)
          (for_each (mc_step perm crand1 RAND_MAX jperp slices temp nbs maxnb)
             (xrange mcsteps) s)
          (for_each (mc_step perm crand2 RAND_MAX jperp slices temp nbs maxnb)
             (xrange mcsteps) t)"
    by (rule for_each_budget[where w = "nat slices * n"
          and Rel = "step_agree crand1 crand2 n", OF _ r])
      (use assms(2) in \<open>auto intro: mc_step_agree\<close>)
  then show ?thesis by (simp add: sched_point_def Inr)
qed

lemma QuantumAnneal_agree:
  assumes "rand_agree (length sched * (nat mcsteps * (nat slices * nat nspins)))
             crand1 c1 crand2 c2"
    and "perm_keeps_length perm"
    and "QuantumAnneal perm crand1 RAND_MAX sched mcsteps slices temp nspins confs nbs g c1
           = Inr (confs1, g1, d1)"
    and "QuantumAnneal perm crand2 RAND_MAX sched mcsteps slices temp nspins confs nbs g c2
           = Inr (confs2, g2, d2)"
  shows "confs1 = confs2 \<and> g1 = g2"
proof -
  obtain shuff g0 where p: "perm g (xrange nspins) = (shuff, g0)"
    by (cases "perm g (xrange nspins)")
  have n: "length shuff = nat nspins"
    using assms(2) p unfolding perm_keeps_length_def
    by (metis fst_conv length_xrange)
  have r: "step_agree crand1 crand2 (nat nspins)
             (0 + nat mcsteps * (nat slices * nat nspins) * length sched)
             ((confs, 0, c1), shuff, g0) ((confs, 0, c2), shuff, g0)"
    using assms(1) n by (simp add: step_agree_def sweep_agree_def mult.commute)
  have "rel_sum (=) (step_agree crand1 crand2 (nat nspins) 0)
          (for_each (sched_point perm crand1 RAND_MAX mcsteps slices temp nbs (maxnb_of nbs)) sched
             ((confs, 0, c1), shuff, g0))
          (for_each (sched_point perm crand2 RAND_MAX mcsteps slices temp nbs (maxnb_of nbs)) sched
             ((confs, 0, c2), shuff, g0))"
    by (rule for_each_budget[where w = "nat mcsteps * (nat slices * nat nspins)"
          and Rel = "step_agree crand1 crand2 (nat nspins)", OF _ r])
      (use assms(2) in \<open>auto intro: sched_point_agree\<close>)
  then show ?thesis
    using assms(3,4)
    by (auto simp: QuantumAnneal_def p step_agree_def sweep_agree_def ebind_def
        split: sum.splits prod.splits elim!: rel_sum.cases)
qed

lemma mc_step_order:
  "mc_step perm crand RAND_MAX jperp slices temp nbs maxnb step st = Inr st'
   \<Longrightarrow> snd st' = next_order perm (snd st)"
  by (cases st)
    (auto simp: mc_step_def next_order_def ebind_def Let_def split: sum.splits prod.splits)

lemma sched_point_order:
  assumes "sched_point perm crand RAND_MAX mcsteps slices temp nbs maxnb field st = Inr st'"
  shows "snd st' = (next_order perm ^^ nat mcsteps) (snd st)"
proof -
  from assms obtain jperp where
    f: "for_each (mc_step perm crand RAND_MAX jperp slices temp nbs maxnb) (xrange mcsteps) st
          = Inr st'"
    by (auto simp: sched_point_def ebind_def split: sum.splits)
  have "snd st' = (next_order perm ^^ length (xrange mcsteps)) (snd st)"
    by (rule for_each_funpow[where h = snd and f = "next_order perm", OF _ f])
      (rule mc_step_order)
  then show ?thesis
    by (simp add: length_xrange)
qed

lemma QuantumAnneal_order:
  assumes "QuantumAnneal perm crand RAND_MAX sched mcsteps slices temp nspins confs nbs g c
             = Inr (confs', g', c')"
  shows "g' = snd ((next_order perm ^^ (length sched * nat mcsteps)) (perm g (xrange nspins)))"
proof -
  obtain shuff g0 where p: "perm g (xrange nspins) = (shuff, g0)"
    by (cases "perm g (xrange nspins)")
  from assms obtain sw' shuff' where
    f: "for_each (sched_point perm crand RAND_MAX mcsteps slices temp nbs (maxnb_of nbs)) sched
          ((confs, 0, c), shuff, g0) = Inr (sw', shuff', g')"
    by (auto simp: QuantumAnneal_def p ebind_def Let_def split: sum.splits prod.splits)
  have "snd (sw', shuff', g')
          = ((next_order perm ^^ nat mcsteps) ^^ length sched) (snd ((confs, 0 :: real, c), shuff, g0))"
    using for_each_funpow[where h = snd and f = "next_order perm ^^ nat mcsteps", OF _ f]
      sched_point_order by fastforce
  then have "(next_order perm ^^ (length sched * nat mcsteps)) (shuff, g0) = (shuff', g')"
    by (simp add: funpow_mult mult.commute)
  then show ?thesis
    by (simp add: p)
qed

text \<open>
  Claim C8, as amended. Take the serial engine on arguments on which no access leaves its
  array: at least two slices, a configuration and a neighbour table of the expected
  shapes, a generator that returns permutations; and a temperature other than 0. Two
  runs on the same schedule, counts, temperature, configuration and neighbour table,
  with the injected generator in the same state, both return, with the same
  configuration and with the generator in the same state, whenever \<^verbatim>\<open>rand()\<close> delivers
  the same values in both runs at its first
  \<open>length sched * mcsteps * slices * nspins\<close> calls, one for each spin update. The
  state of the generator at the end is the one that the first request and one request
  per step of every schedule point produce. The result is determined by the inputs, the
  state of the injected generator and the values of \<^verbatim>\<open>rand()\<close>.
\<close>

theorem serial_run_determined:
  assumes "conf_shape nspins slices confs" and "nbs_shape nspins nbs" and "2 \<le> slices"
    and "temp \<noteq> 0" and "perm_ok perm" and "perm_keeps_length perm"
    and "rand_agree (length sched * (nat mcsteps * (nat slices * nat nspins)))
           crand1 c1 crand2 c2"
  shows "\<exists>confs' d1 d2.
           QuantumAnneal perm crand1 RAND_MAX sched mcsteps slices temp nspins confs nbs g c1
             = Inr (confs',
                    snd ((next_order perm ^^ (length sched * nat mcsteps))
                           (perm g (xrange nspins))),
                    d1)
         \<and> QuantumAnneal perm crand2 RAND_MAX sched mcsteps slices temp nspins confs nbs g c2
             = Inr (confs',
                    snd ((next_order perm ^^ (length sched * nat mcsteps))
                           (perm g (xrange nspins))),
                    d2)"
proof -
  have "\<exists>confs1 g1 d1.
          QuantumAnneal perm crand1 RAND_MAX sched mcsteps slices temp nspins confs nbs g c1
            = Inr (confs1, g1, d1)"
    by (rule QuantumAnneal_returns[OF assms(1,2,3,5,4)])
  then obtain confs1 g1 d1 where
    r1: "QuantumAnneal perm crand1 RAND_MAX sched mcsteps slices temp nspins confs nbs g c1
           = Inr (confs1, g1, d1)"
    by blast
  have "\<exists>confs2 g2 d2.
          QuantumAnneal perm crand2 RAND_MAX sched mcsteps slices temp nspins confs nbs g c2
            = Inr (confs2, g2, d2)"
    by (rule QuantumAnneal_returns[OF assms(1,2,3,5,4)])
  then obtain confs2 g2 d2 where
    r2: "QuantumAnneal perm crand2 RAND_MAX sched mcsteps slices temp nspins confs nbs g c2
           = Inr (confs2, g2, d2)"
    by blast
  have e: "confs1 = confs2"
    using QuantumAnneal_agree[OF assms(7,6) r1 r2] by simp
  show ?thesis
    using r1 r2 e QuantumAnneal_order[OF r1] QuantumAnneal_order[OF r2] by simp
qed

text \<open>
  One spin in two slices, both \<open>+1\<close>, schedule \<open>[1]\<close>, one step, temperature 1: two
  spin updates. A \<^verbatim>\<open>rand()\<close> that returns 0 at every call and one that returns 0 at its
  first two calls only: both runs flip both entries. With a \<^verbatim>\<open>rand()\<close> that returns 0
  at its first call only, the second entry is not flipped.
\<close>

theorem serial_run_determined_witness:
  "conf_shape 1 2 [[1, 1]] \<and> nbs_shape 1 [[]] \<and> (2 :: int) \<le> 2 \<and> (1 :: real) \<noteq> 0
   \<and> perm_ok (keep_order :: unit \<Rightarrow> int list \<Rightarrow> int list \<times> unit)
   \<and> perm_keeps_length (keep_order :: unit \<Rightarrow> int list \<Rightarrow> int list \<times> unit)
   \<and> rand_agree (length [1 :: real] * (nat 1 * (nat 2 * nat 1)))
       rand_zero_counting (0 :: nat) (rand_zero_then 32767) (2 :: nat)
   \<and> (\<exists>confs' d1 d2.
        QuantumAnneal keep_order rand_zero_counting 32767 [1] 1 2 1 1 [[1, 1]] [[]] () (0 :: nat)
          = Inr (confs',
                 snd ((next_order keep_order ^^ (length [1 :: real] * nat 1))
                        (keep_order () (xrange 1))),
                 d1)
      \<and> QuantumAnneal keep_order (rand_zero_then 32767) 32767 [1] 1 2 1 1 [[1, 1]] [[]] ()
            (2 :: nat)
          = Inr (confs',
                 snd ((next_order keep_order ^^ (length [1 :: real] * nat 1))
                        (keep_order () (xrange 1))),
                 d2))
   \<and> QuantumAnneal keep_order rand_zero_counting 32767 [1] 1 2 1 1 [[1, 1]] [[]] () (0 :: nat)
       = Inr ([[- 1, - 1]], (), 2)
   \<and> QuantumAnneal keep_order (rand_zero_then 32767) 32767 [1] 1 2 1 1 [[1, 1]] [[]] () (2 :: nat)
       = Inr ([[- 1, - 1]], (), 0)
   \<and> QuantumAnneal keep_order (rand_zero_then 32767) 32767 [1] 1 2 1 1 [[1, 1]] [[]] () (1 :: nat)
       = Inr ([[- 1, 1]], (), 0)"
proof -
  have h1: "conf_shape 1 2 [[1, 1]]"
    by (simp add: conf_shape_def)
  have h2: "nbs_shape 1 [[]]"
    by (simp add: nbs_shape_def maxnb_of_def)
  have h5: "perm_ok (keep_order :: unit \<Rightarrow> int list \<Rightarrow> int list \<times> unit)"
    by (simp add: perm_ok_def)
  have h6: "perm_keeps_length (keep_order :: unit \<Rightarrow> int list \<Rightarrow> int list \<times> unit)"
    by (simp add: perm_keeps_length_def)
  have h7: "rand_agree (length [1 :: real] * (nat 1 * (nat 2 * nat 1)))
       rand_zero_counting (0 :: nat) (rand_zero_then 32767) (2 :: nat)"
    by (simp add: numeral_2_eq_2)
  have v1: "QuantumAnneal keep_order rand_zero_counting 32767 [1] 1 2 1 1 [[1, 1]] [[]] ()
              (0 :: nat) = Inr ([[- 1, - 1]], (), 2)"
    using jperp_pos by (simp add: engine_defs)
  have v2: "QuantumAnneal keep_order (rand_zero_then 32767) 32767 [1] 1 2 1 1 [[1, 1]] [[]] ()
              (2 :: nat) = Inr ([[- 1, - 1]], (), 0)"
    using jperp_pos by (simp add: engine_defs)
  have v3: "QuantumAnneal keep_order (rand_zero_then 32767) 32767 [1] 1 2 1 1 [[1, 1]] [[]] ()
              (1 :: nat) = Inr ([[- 1, 1]], (), 0)"
    using jperp_pos by (simp add: engine_defs)
  have t: "\<exists>confs' d1 d2.
        QuantumAnneal keep_order rand_zero_counting 32767 [1] 1 2 1 1 [[1, 1]] [[]] () (0 :: nat)
          = Inr (confs',
                 snd ((next_order keep_order ^^ (length [1 :: real] * nat 1))
                        (keep_order () (xrange 1))),
                 d1)
      \<and> QuantumAnneal keep_order (rand_zero_then 32767) 32767 [1] 1 2 1 1 [[1, 1]] [[]] ()
            (2 :: nat)
          = Inr (confs',
                 snd ((next_order keep_order ^^ (length [1 :: real] * nat 1))
                        (keep_order () (xrange 1))),
                 d2)"
    using serial_run_determined[OF h1 h2 _ _ h5 h6 h7, where RAND_MAX = 32767 and g = "()"]
    by simp
  from h1 h2 h5 h6 h7 t v1 v2 v3 show ?thesis
    by simp
qed


text \<open>
  The claim as it stands makes the state of the injected generator the only source of
  randomness. The acceptance draw comes from \<^verbatim>\<open>rand()\<close>, which the injected generator
  does not drive. One spin in two slices, both \<open>+1\<close>, schedule \<open>[1]\<close>, one step,
  temperature 1, the same generator in the same state: when \<^verbatim>\<open>rand()\<close> returns 0 both
  entries are flipped, when it returns \<^verbatim>\<open>RAND_MAX\<close> neither is.
\<close>

theorem rand_state_changes_result:
  "QuantumAnneal keep_order rand_replay 32767 [1] 1 2 1 1 [[1, 1]] [[]] () 0
     = Inr ([[- 1, - 1]], (), 0)
   \<and> QuantumAnneal keep_order rand_replay 32767 [1] 1 2 1 1 [[1, 1]] [[]] () 32767
     = Inr ([[1, 1]], (), 32767)"
  using jperp_pos by (simp add: engine_defs)

subsection \<open>The empty schedule\<close>

text \<open>
  Claim C9. Called with a schedule of length 0, either engine leaves the configuration
  as it was: the serial engine returns the configuration it was given (and the state
  of \<^verbatim>\<open>rand()\<close> it was given); the parallel engine returns the configuration it was
  given, or, for a negative \<^verbatim>\<open>nspins\<close>, raises in \<^verbatim>\<open>np.zeros\<close> before it reads or
  writes the configuration.
\<close>

theorem empty_schedule_unchanged:
  "(\<exists>g'. QuantumAnneal perm crand RAND_MAX [] mcsteps slices temp nspins confs nbs g c
            = Inr (confs, g', c))
   \<and> QuantumAnneal_parallel crand RAND_MAX [] mcsteps slices temp nspins confs nbs c
       = (if nspins < 0 then Inl NegativeDimension else Inr (confs, c))"
  by (simp add: QuantumAnneal_def QuantumAnneal_parallel_def Let_def split: prod.splits)

text \<open>
  Claim C10. With an empty schedule the serial engine still asks the injected generator
  for one permutation of \<^verbatim>\<open>range(nspins)\<close>: the generator is left in the state that this
  one request produces, and the configuration is returned untouched. With a generator
  that counts its requests, the count goes from 0 to 1. On any schedule, the loop over
  the schedule starts from the order and the generator state that this request gives.
\<close>

theorem permutation_requested_once:
  "QuantumAnneal perm crand RAND_MAX [] mcsteps slices temp nspins confs nbs g c
     = Inr (confs, snd (perm g (xrange nspins)), c)
   \<and> QuantumAnneal count_requests crand RAND_MAX [] mcsteps slices temp nspins confs nbs 0 c
     = Inr (confs, Suc 0, c)
   \<and> QuantumAnneal perm crand RAND_MAX sched mcsteps slices temp nspins confs nbs g c
     = ebind (for_each (sched_point perm crand RAND_MAX mcsteps slices temp nbs (maxnb_of nbs))
                sched
                ((confs, 0, c), fst (perm g (xrange nspins)), snd (perm g (xrange nspins))))
         (\<lambda>((confs', ediff', c'), sidx_shuff', g'). Inr (confs', g', c'))"
  by (simp add: QuantumAnneal_def Let_def split: prod.splits)

end
